theory Spec2Isabelle
  imports Complex_Main
begin

section \<open>Bytes and the string helpers of the Go library that trid.go calls\<close>

text \<open>
  A Go string is a sequence of bytes; it is modelled as \<^typ>\<open>string\<close>, one \<^typ>\<open>char\<close>
  per byte. The functions of this section stand for the calls of \<^verbatim>\<open>strings\<close> and
  \<^verbatim>\<open>strconv\<close> made by \<^verbatim>\<open>trid.go\<close>, each at the arguments it is called with.
\<close>

abbreviation NL :: char where "NL \<equiv> CHR 0x0A"
abbreviation CR :: char where "CR \<equiv> CHR 0x0D"

text \<open>\<^verbatim>\<open>strings.Contains(s, sub)\<close>: \<^verbatim>\<open>sub\<close> occurs in \<^verbatim>\<open>s\<close> at some offset.\<close>

definition HasPrefix :: "string \<Rightarrow> string \<Rightarrow> bool" where
  "HasPrefix s p = (length p \<le> length s \<and> take (length p) s = p)"

fun Contains :: "string \<Rightarrow> string \<Rightarrow> bool" where
  "Contains [] sub = HasPrefix [] sub"
| "Contains (x # t) sub = (HasPrefix (x # t) sub \<or> Contains t sub)"

text \<open>\<^verbatim>\<open>strings.ReplaceAll(out, "\r\n", "\n")\<close>: left to right, without overlap.\<close>

fun ReplaceAll_crlf :: "string \<Rightarrow> string" where
  "ReplaceAll_crlf (x # y # t) =
     (if x = CR \<and> y = NL then NL # ReplaceAll_crlf t else x # ReplaceAll_crlf (y # t))"
| "ReplaceAll_crlf [x] = [x]"
| "ReplaceAll_crlf [] = []"

text \<open>
  \<^verbatim>\<open>strings.Split(s, "\n\n")\<close>: cuts at every occurrence of the separator found from the
  left without overlap; the result has one more element than there are cuts, so the empty
  text gives one empty block. \<open>cur\<close> is the block being collected.
\<close>

fun Split_blank :: "string \<Rightarrow> string \<Rightarrow> string list" where
  "Split_blank cur (x # y # t) =
     (if x = NL \<and> y = NL then cur # Split_blank [] t else Split_blank (cur @ [x]) (y # t))"
| "Split_blank cur [x] = [cur @ [x]]"
| "Split_blank cur [] = [cur]"

text \<open>\<^verbatim>\<open>strings.Replace(s, "%", "", -1)\<close>: every percent sign is removed.\<close>

definition Replace_percent :: "string \<Rightarrow> string" where
  "Replace_percent s = filter (\<lambda>x. x \<noteq> CHR ''%'') s"

text \<open>
  \<^verbatim>\<open>strings.TrimSpace\<close>: the white space of Go's ASCII table (tab, line feed, vertical tab,
  form feed, carriage return, space) is cut from both ends. The argument at the one call
  site consists of digits and dots only (lemma \<open>prob_field_chars\<close> below), so the Unicode
  white space that Go also cuts can not occur there.
\<close>

definition asciiSpace :: "char list" where
  "asciiSpace = [CHR 0x09, CHR 0x0A, CHR 0x0B, CHR 0x0C, CHR 0x0D, CHR 0x20]"

definition TrimSpace :: "string \<Rightarrow> string" where
  "TrimSpace s =
     rev (dropWhile (\<lambda>x. x \<in> set asciiSpace) (rev (dropWhile (\<lambda>x. x \<in> set asciiSpace) s)))"

text \<open>
  \<^verbatim>\<open>strings.ToLower\<close>: when every byte is below \<^verbatim>\<open>utf8.RuneSelf\<close> (0x80) the letters A to Z
  are moved to a to z by adding \<^verbatim>\<open>'a' - 'A'\<close> (32: in that range the bit of weight 32 is
  clear, and adding sets it; see lemma \<open>ascii_lower_add\<close>). Otherwise Go maps every rune through its
  Unicode tables (\<^verbatim>\<open>strings.Map(unicode.ToLower, s)\<close>); the tables are not part of this
  package, and that path is the parameter \<open>uni\<close>.
\<close>

definition ascii_lower :: "char \<Rightarrow> char" where
  "ascii_lower c =
     (if 65 \<le> (of_char c :: nat) \<and> (of_char c :: nat) \<le> 90
      then (case c of Char b0 b1 b2 b3 b4 b5 b6 b7 \<Rightarrow> Char b0 b1 b2 b3 b4 True b6 b7)
      else c)"

definition ascii_upper :: "char \<Rightarrow> char" where
  "ascii_upper c =
     (if 97 \<le> (of_char c :: nat) \<and> (of_char c :: nat) \<le> 122
      then (case c of Char b0 b1 b2 b3 b4 b5 b6 b7 \<Rightarrow> Char b0 b1 b2 b3 b4 False b6 b7)
      else c)"

definition isASCII :: "string \<Rightarrow> bool" where
  "isASCII s = (\<forall>c \<in> set s. (of_char c :: nat) < 128)"

definition ToLower :: "(string \<Rightarrow> string) \<Rightarrow> string \<Rightarrow> string" where
  "ToLower uni s = (if isASCII s then map ascii_lower s else uni s)"

text \<open>\<^verbatim>\<open>strconv.Itoa\<close>: the decimal numeral of an integer.\<close>

definition digit_char :: "nat \<Rightarrow> char" where
  "digit_char d = ''0123456789'' ! d"

function digits :: "nat \<Rightarrow> string" where
  "digits n = (if n < 10 then [digit_char n] else digits (n div 10) @ [digit_char (n mod 10)])"
  by pat_completeness auto
termination
  by (relation "measure id") auto

definition Itoa :: "int \<Rightarrow> string" where
  "Itoa i = (if i < 0 then CHR ''-'' # digits (nat (- i)) else digits (nat i))"

subsection \<open>strconv.ParseFloat at 64 bits\<close>

text \<open>
  A finite \<^verbatim>\<open>float64\<close> is modelled by the rational number it denotes. The call site only
  passes digits and dots (lemma \<open>prob_field_chars\<close>), where Go accepts exactly the
  numerals with at least one digit and at most one dot; the other forms Go reads (sign,
  exponent, hexadecimal, underscores, Inf, NaN) all hold a byte outside that alphabet and
  are a syntax error here. The value is the float64 nearest to the decimal (ties to the
  even mantissa); a decimal that rounds beyond the largest float64 is a range error.
\<close>

datatype NumError = ErrSyntax | ErrRange

definition isDigit :: "char \<Rightarrow> bool" where
  "isDigit c = (c \<in> set ''0123456789'')"

definition digit_val :: "char \<Rightarrow> int" where
  "digit_val c = of_char c - 48"

definition mantissa :: "string \<Rightarrow> int" where
  "mantissa ds = foldl (\<lambda>a c. 10 * a + digit_val c) 0 ds"

function bitlen :: "int \<Rightarrow> nat" where
  "bitlen n = (if n \<le> 0 then 0 else Suc (bitlen (n div 2)))"
  by pat_completeness auto
termination
  by (relation "measure nat") auto

text \<open>\<open>ilog2 n d\<close> is the exponent \<open>e\<close> with \<open>2^e \<le> n / d < 2^(e+1)\<close>, for positive \<open>n\<close>, \<open>d\<close>.\<close>

definition pow2 :: "int \<Rightarrow> rat" where
  "pow2 e = (if 0 \<le> e then 2 ^ nat e else 1 / 2 ^ nat (- e))"

definition ilog2 :: "int \<Rightarrow> int \<Rightarrow> int" where
  "ilog2 n d =
     (let e = int (bitlen n) - int (bitlen d)
      in if (if 0 \<le> e then d * 2 ^ nat e \<le> n else d \<le> n * 2 ^ nat (- e)) then e else e - 1)"

text \<open>The integer nearest to \<open>a / b\<close>, a tie going to the even one.\<close>

definition round_even :: "int \<Rightarrow> int \<Rightarrow> int" where
  "round_even a b =
     (let q = a div b; r = a mod b
      in if 2 * r < b then q else if b < 2 * r then q + 1 else if even q then q else q + 1)"

definition float64_nearest :: "int \<Rightarrow> int \<Rightarrow> rat" where
  "float64_nearest n d =
     (if n = 0 then 0
      else let e = max (ilog2 n d) (- 1022); u = e - 52;
               k = (if 0 \<le> u then round_even n (d * 2 ^ nat u) else round_even (n * 2 ^ nat (- u)) d)
           in of_int k * pow2 u)"

definition ParseFloat :: "string \<Rightarrow> NumError + rat" where
  "ParseFloat s =
     (let ip = takeWhile isDigit s; r = dropWhile isDigit s;
          fp = (case r of [] \<Rightarrow> [] | x # t \<Rightarrow> t)
      in if (r \<noteq> [] \<and> hd r \<noteq> CHR ''.'') \<or> \<not> list_all isDigit fp \<or> ip @ fp = []
         then Inl ErrSyntax
         else let v = float64_nearest (mantissa (ip @ fp)) (10 ^ length fp)
              in if 2 ^ 1024 \<le> v then Inl ErrRange else Inr v)"

section \<open>Regular expressions as Go's regexp package matches them\<close>

text \<open>
  The two patterns of \<^verbatim>\<open>trid.go\<close> are written in the syntax tree below. A character
  class is a list of bytes, or the complement of one. \<open>Star True\<close> is the greedy star,
  \<open>Star False\<close> the lazy one (\<^verbatim>\<open>*?\<close>); \<open>Grp i\<close> is the \<open>i\<close>-th capturing group; \<open>EOL\<close> is
  \<^verbatim>\<open>$\<close> under the flag \<^verbatim>\<open>m\<close>: the end of the text or the position before a line feed.
\<close>

datatype cclass = In "char list" | NotIn "char list"

fun cmatch :: "cclass \<Rightarrow> char \<Rightarrow> bool" where
  "cmatch (In cs) x = (x \<in> set cs)"
| "cmatch (NotIn cs) x = (x \<notin> set cs)"

datatype rx = Eps | Ch cclass | Cat rx rx | Or rx rx | Star bool rx | Grp nat rx | EOL

definition Plus :: "bool \<Rightarrow> rx \<Rightarrow> rx" where
  "Plus g r = Cat r (Star g r)"

definition Opt :: "rx \<Rightarrow> rx" where
  "Opt r = Or r Eps"

fun Seq :: "rx list \<Rightarrow> rx" where
  "Seq [] = Eps"
| "Seq [r] = r"
| "Seq (r # rs) = Cat r (Seq rs)"

text \<open>
  The flag \<^verbatim>\<open>i\<close>: a literal byte matches both of its ASCII cases. Go folds by Unicode's
  simple case folding, under which \<^verbatim>\<open>k\<close> also matches the Kelvin sign U+212A (bytes
  E2 84 AA) and \<^verbatim>\<open>s\<close> the long s U+017F (bytes C5 BF).
\<close>

definition bytes :: "char list \<Rightarrow> rx" where
  "bytes bs = Seq (map (\<lambda>b. Ch (In [b])) bs)"

definition fold_ci :: "char \<Rightarrow> rx" where
  "fold_ci c =
     (if ascii_lower c = CHR ''k'' then Or (Ch (In ''kK'')) (bytes [CHR 0xE2, CHR 0x84, CHR 0xAA])
      else if ascii_lower c = CHR ''s'' then Or (Ch (In ''sS'')) (bytes [CHR 0xC5, CHR 0xBF])
      else Ch (In [ascii_lower c, ascii_upper c]))"

definition lit_ci :: "string \<Rightarrow> rx" where
  "lit_ci s = Seq (map fold_ci s)"

text \<open>The Perl class \<^verbatim>\<open>\s\<close> of Go's regexp: tab, line feed, form feed, carriage return, space.\<close>

definition perl_space :: "char list" where
  "perl_space = [CHR 0x09, CHR 0x0A, CHR 0x0C, CHR 0x0D, CHR 0x20]"

abbreviation sp :: rx where "sp \<equiv> Ch (In perl_space)"
abbreviation dot :: rx where "dot \<equiv> Ch (NotIn [NL])"

text \<open>
  The matcher tries the alternatives in the order of preference of a backtracking engine,
  which is the match Go's leftmost-first semantics returns: the left branch of \<open>Or\<close>
  first, one more round of a greedy star before leaving it, leaving a lazy star before
  one more round. \<open>k\<close> is what remains to be matched after \<open>r\<close>; captures are a function
  from the group number to the captured text. A round of a star that consumes nothing is
  not repeated.
\<close>

type_synonym caps = "nat \<Rightarrow> string"

function rmatch :: "rx \<Rightarrow> string \<Rightarrow> caps \<Rightarrow> (string \<Rightarrow> caps \<Rightarrow> 'a option) \<Rightarrow> 'a option" where
  "rmatch Eps s c k = k s c"
| "rmatch (Ch cl) s c k = (case s of [] \<Rightarrow> None | x # t \<Rightarrow> if cmatch cl x then k t c else None)"
| "rmatch (Cat r1 r2) s c k = rmatch r1 s c (\<lambda>s' c'. rmatch r2 s' c' k)"
| "rmatch (Or r1 r2) s c k = (case rmatch r1 s c k of Some a \<Rightarrow> Some a | None \<Rightarrow> rmatch r2 s c k)"
| "rmatch (Star g r) s c k =
     (if g then
        (case rmatch r s c (\<lambda>s' c'. if length s' < length s then rmatch (Star g r) s' c' k else None) of
           Some a \<Rightarrow> Some a
         | None \<Rightarrow> k s c)
      else
        (case k s c of
           Some a \<Rightarrow> Some a
         | None \<Rightarrow> rmatch r s c (\<lambda>s' c'. if length s' < length s then rmatch (Star g r) s' c' k else None)))"
| "rmatch (Grp i r) s c k = rmatch r s c (\<lambda>s' c'. k s' (c'(i := take (length s - length s') s)))"
| "rmatch EOL s c k = (if s = [] \<or> hd s = NL then k s c else None)"
  by pat_completeness auto
termination
  by (relation "inv_image (less_than <*lex*> less_than) (\<lambda>(r, s, c, k). (size r, length s))") auto

fun num_subexp :: "rx \<Rightarrow> nat" where
  "num_subexp (Cat a b) = max (num_subexp a) (num_subexp b)"
| "num_subexp (Or a b) = max (num_subexp a) (num_subexp b)"
| "num_subexp (Star g a) = num_subexp a"
| "num_subexp (Grp i a) = max i (num_subexp a)"
| "num_subexp r = 0"

definition no_caps :: caps where
  "no_caps = (\<lambda>i. [])"

definition match_here :: "rx \<Rightarrow> string \<Rightarrow> (string \<times> caps) option" where
  "match_here r s = rmatch r s no_caps (\<lambda>s' c. Some (s', c))"

text \<open>
  The leftmost match: the first start position, from the left, at which the pattern
  matches. The result is the text from the start of the match, the text after its end,
  and the captures.
\<close>

fun search :: "rx \<Rightarrow> string \<Rightarrow> (string \<times> string \<times> caps) option" where
  "search r [] = (case match_here r [] of None \<Rightarrow> None | Some (e, c) \<Rightarrow> Some ([], e, c))"
| "search r (x # t) =
     (case match_here r (x # t) of None \<Rightarrow> search r t | Some (e, c) \<Rightarrow> Some (x # t, e, c))"

definition submatches :: "rx \<Rightarrow> string \<Rightarrow> string \<Rightarrow> caps \<Rightarrow> string list" where
  "submatches r b e c = take (length b - length e) b # map c [1..<Suc (num_subexp r)]"

text \<open>\<^verbatim>\<open>FindStringSubmatch\<close>: the whole match and the groups, or the nil slice (no element).\<close>

definition FindStringSubmatch :: "rx \<Rightarrow> string \<Rightarrow> string list" where
  "FindStringSubmatch r s = (case search r s of None \<Rightarrow> [] | Some (b, e, c) \<Rightarrow> submatches r b e c)"

text \<open>
  \<^verbatim>\<open>FindAllStringSubmatch(s, -1)\<close>: the successive matches, each search starting where the
  previous match ended. After an empty match Go moves one rune forward; here that step is
  one byte; the pattern this is used with starts with a key of at least seven letters and
  never matches the empty text.
\<close>

function FindAllStringSubmatch :: "rx \<Rightarrow> string \<Rightarrow> string list list" where
  "FindAllStringSubmatch r s =
     (case search r s of
        None \<Rightarrow> []
      | Some (b, e, c) \<Rightarrow>
          if length e < length s then submatches r b e c # FindAllStringSubmatch r e
          else (case s of [] \<Rightarrow> [submatches r b e c]
                | x # t \<Rightarrow> submatches r b e c # FindAllStringSubmatch r t))"
  by pat_completeness auto
termination
  by (relation "measure (\<lambda>(r, s). length s)") auto

section \<open>trid.go\<close>

datatype error =
    ErrNoFileSpecified | ErrNumberOfMatches | ErrNoDefinitions | ErrEmptyDefPackage
  | ErrFileNotFound | ErrUnknownFileType
  | Underlying string
  | CommandTimedOut "error option"

text \<open>
  \<^verbatim>\<open>reFileInfo\<close> is
  \<^verbatim>\<open>(?mi)([0-9.]+%)\s+\((\..*?)\)\s+(.*?(?:\s+\([^()]+\))*?)(?:\s+\([^()]+\))?$\<close>
  and \<^verbatim>\<open>reFileDetails\<close> is
  \<^verbatim>\<open>(?mi)(Mime type|Related URL|Definition|Remarks)\s*:\s*(.*?)$\<close>.
\<close>

definition paren_group :: rx where
  "paren_group = Seq [Plus True sp, lit_ci ''('', Plus True (Ch (NotIn ''()'')), lit_ci '')'']"

definition reFileInfo :: rx where
  "reFileInfo =
     Seq [Grp 1 (Seq [Plus True (Ch (In ''0123456789.'')), lit_ci ''%'']),
          Plus True sp,
          lit_ci ''('',
          Grp 2 (Seq [lit_ci ''.'', Star False dot]),
          lit_ci '')'',
          Plus True sp,
          Grp 3 (Seq [Star False dot, Star False paren_group]),
          Opt paren_group,
          EOL]"

definition detail_keys :: rx where
  "detail_keys =
     Or (lit_ci ''Mime type'') (Or (lit_ci ''Related URL'') (Or (lit_ci ''Definition'') (lit_ci ''Remarks'')))"

definition reFileDetails :: rx where
  "reFileDetails =
     Seq [Grp 1 detail_keys, Star True sp, lit_ci '':'', Star True sp, Grp 2 (Star False dot), EOL]"

record Options =
  Cmd :: string
  Definitions :: string
  Timeout :: int

record Trid =
  options :: Options

record FileType =
  Extension :: string
  Probability :: rat
  Name :: string
  MimeType :: string
  RelatedURL :: string
  Remarks :: string
  Definition :: string

definition second :: int where
  "second = 1000000000"

definition NewTrid :: "Options \<Rightarrow> Trid" where
  "NewTrid opts =
     (let o1 = (if Cmd opts = [] then opts\<lparr>Cmd := ''trid''\<rparr> else opts);
          o2 = (if Timeout o1 = 0 then o1\<lparr>Timeout := 30 * second\<rparr> else o1)
      in \<lparr>options = o2\<rparr>)"

text \<open>The \<^verbatim>\<open>switch m[1]\<close> of \<^verbatim>\<open>parseOutput\<close>, for one match of \<^verbatim>\<open>reFileDetails\<close>.\<close>

definition applyDetail :: "FileType \<Rightarrow> string list \<Rightarrow> FileType" where
  "applyDetail f m =
     (if m ! 1 = ''Mime type'' then f\<lparr>MimeType := m ! 2\<rparr>
      else if m ! 1 = ''Related URL'' then f\<lparr>RelatedURL := m ! 2\<rparr>
      else if m ! 1 = ''Definition'' then f\<lparr>Definition := m ! 2\<rparr>
      else if m ! 1 = ''Remarks'' then f\<lparr>Remarks := m ! 2\<rparr>
      else f)"

text \<open>
  The body of the loop over the blocks: \<open>None\<close> is \<^verbatim>\<open>continue\<close>, \<open>Some f\<close> the record
  that is appended. The indices 1 to 3 are read after the length was found to be 4.
\<close>

definition parseBlock :: "(string \<Rightarrow> string) \<Rightarrow> string \<Rightarrow> FileType option" where
  "parseBlock uni result =
     (let fileInfo = FindStringSubmatch reFileInfo result in
      if length fileInfo \<noteq> 4 then None
      else let field = TrimSpace (Replace_percent (fileInfo ! 1)) in
        if length field = 0 then None
        else case ParseFloat field of
          Inl err \<Rightarrow> None
        | Inr probability \<Rightarrow>
            Some (foldl applyDetail
                   \<lparr>Extension = ToLower uni (fileInfo ! 2), Probability = probability,
                    Name = fileInfo ! 3, MimeType = [], RelatedURL = [], Remarks = [],
                    Definition = []\<rparr>
                   (FindAllStringSubmatch reFileDetails result)))"

text \<open>
  Go's pair of results \<^verbatim>\<open>([]FileType, error)\<close>: a slice that is \<^verbatim>\<open>nil\<close> is \<open>None\<close>, an
  error that is \<^verbatim>\<open>nil\<close> is \<open>None\<close>.
\<close>

type_synonym scan_result = "FileType list option \<times> error option"

definition parseOutput :: "(string \<Rightarrow> string) \<Rightarrow> string \<Rightarrow> scan_result" where
  "parseOutput uni out =
     (let results = Split_blank [] (ReplaceAll_crlf out);
          fileTypes = foldl (\<lambda>fileTypes result.
                               case parseBlock uni result of
                                 None \<Rightarrow> fileTypes
                               | Some f \<Rightarrow> fileTypes @ [f]) [] results
      in (Some fileTypes, None))"

definition checkTridError :: "string \<Rightarrow> error option" where
  "checkTridError out =
     (if Contains out ''you have to specify at least one file to analyze'' then Some ErrNoFileSpecified
      else if Contains out ''No definitions available!'' then Some ErrNoDefinitions
      else if Contains out ''Def package'' \<and> Contains out ''is empty!'' then Some ErrEmptyDefPackage
      else if Contains out ''Error: found no file(s) to analyze!'' then Some ErrFileNotFound
      else if Contains out ''Unknown!'' then Some ErrUnknownFileType
      else None)"

text \<open>
  What \<^verbatim>\<open>Scan\<close> reaches outside the program: \<^verbatim>\<open>os.Stat\<close> (its error, if any) with
  \<^verbatim>\<open>os.IsNotExist\<close>, the run of the child process (\<^verbatim>\<open>CombinedOutput\<close> under the context:
  the captured text, the error, and whether the deadline was exceeded), and the Unicode
  tables behind \<^verbatim>\<open>strings.ToLower\<close>.
\<close>

record world =
  Stat :: "string \<Rightarrow> error option"
  IsNotExist :: "error \<Rightarrow> bool"
  Run :: "string \<Rightarrow> int \<Rightarrow> string list \<Rightarrow> string \<times> error option \<times> bool"
  UnicodeLower :: "string \<Rightarrow> string"

definition execCmd :: "world \<Rightarrow> string \<Rightarrow> int \<Rightarrow> string list \<Rightarrow> string \<times> error option" where
  "execCmd w name timeout args =
     (case Run w name timeout args of
        (out, err, deadlineExceeded) \<Rightarrow>
          if deadlineExceeded then (out, Some (CommandTimedOut err)) else (out, err))"

text \<open>
  \<open>Scan\<close> returns the child processes it started (command, timeout, arguments), in
  order, together with the pair of results of the Go function.
\<close>

type_synonym spawn = "string \<times> int \<times> string list"

text \<open>The argument list, lines 97 to 101 of \<^verbatim>\<open>trid.go\<close>.\<close>

definition Scan_args :: "Trid \<Rightarrow> string \<Rightarrow> int \<Rightarrow> string list" where
  "Scan_args t filePath numberOfMatches =
     (let args0 = [''-v'', ''-n:'' @ Itoa numberOfMatches];
          args1 = (if Definitions (options t) \<noteq> [] then args0 @ [''-d:'' @ Definitions (options t)]
                   else args0)
      in args1 @ [filePath])"

definition Scan :: "world \<Rightarrow> Trid \<Rightarrow> string \<Rightarrow> int \<Rightarrow> spawn list \<times> scan_result" where
  "Scan w t filePath numberOfMatches =
     (if filePath = [] then ([], (None, Some ErrNoFileSpecified))
      else case Stat w filePath of
        Some err \<Rightarrow>
          if IsNotExist w err then ([], (None, Some ErrFileNotFound)) else ([], (None, Some err))
      | None \<Rightarrow>
          if numberOfMatches < 1 then ([], (None, Some ErrNumberOfMatches))
          else
            let args = Scan_args t filePath numberOfMatches;
                spawned = [(Cmd (options t), Timeout (options t), args)]
            in case execCmd w (Cmd (options t)) (Timeout (options t)) args of
                 (out, err) \<Rightarrow>
                   (case checkTridError out of
                      Some tridErr \<Rightarrow> (spawned, (None, Some tridErr))
                    | None \<Rightarrow>
                        (case err of
                           Some e \<Rightarrow> (spawned, (None, Some e))
                         | None \<Rightarrow> (spawned, parseOutput (UnicodeLower w) out))))"

section \<open>Reference notions and sample values used in the statements\<close>

text \<open>
  Containment as such, and the classifier as the specification words it: an ordered table
  of signatures, the first that applies giving the error.
\<close>

definition occurs :: "string \<Rightarrow> string \<Rightarrow> bool" where
  "occurs sub s = (\<exists>pre post. s = pre @ sub @ post)"

definition error_signatures :: "((string \<Rightarrow> bool) \<times> error) list" where
  "error_signatures =
     [(occurs ''you have to specify at least one file to analyze'', ErrNoFileSpecified),
      (occurs ''No definitions available!'', ErrNoDefinitions),
      (\<lambda>out. occurs ''Def package'' out \<and> occurs ''is empty!'' out, ErrEmptyDefPackage),
      (occurs ''Error: found no file(s) to analyze!'', ErrFileNotFound),
      (occurs ''Unknown!'', ErrUnknownFileType)]"

definition first_signature :: "string \<Rightarrow> error option" where
  "first_signature out = map_option snd (find (\<lambda>(p, e). p out) error_signatures)"

definition demo_world :: world where
  "demo_world =
     \<lparr>Stat = (\<lambda>p. if p = ''missing.bin'' then Some (Underlying ''ENOENT'')
                   else if p = ''locked.bin'' then Some (Underlying ''EACCES'') else None),
      IsNotExist = (\<lambda>e. e = Underlying ''ENOENT''),
      Run = (\<lambda>name timeout args. (''Unknown!'', None, False)),
      UnicodeLower = map ascii_lower\<rparr>"

definition demo_trid :: Trid where
  "demo_trid = NewTrid \<lparr>Cmd = [], Definitions = ''defs.trd'', Timeout = 0\<rparr>"


text \<open>
  A match as a relation, without the order of preference: \<open>matches r s c s' c'\<close> says that
  \<open>r\<close> can consume a prefix of \<open>s\<close> leaving \<open>s'\<close>, taking the captures from \<open>c\<close> to \<open>c'\<close>.
\<close>

inductive matches :: "rx \<Rightarrow> string \<Rightarrow> caps \<Rightarrow> string \<Rightarrow> caps \<Rightarrow> bool" where
  m_Eps: "matches Eps s c s c"
| m_Ch: "cmatch cl x \<Longrightarrow> matches (Ch cl) (x # t) c t c"
| m_Cat: "matches r1 s c s1 c1 \<Longrightarrow> matches r2 s1 c1 s2 c2 \<Longrightarrow> matches (Cat r1 r2) s c s2 c2"
| m_OrL: "matches r1 s c s' c' \<Longrightarrow> matches (Or r1 r2) s c s' c'"
| m_OrR: "matches r2 s c s' c' \<Longrightarrow> matches (Or r1 r2) s c s' c'"
| m_Star0: "matches (Star g r) s c s c"
| m_StarS: "matches r s c s1 c1 \<Longrightarrow> length s1 < length s \<Longrightarrow> matches (Star g r) s1 c1 s2 c2
            \<Longrightarrow> matches (Star g r) s c s2 c2"
| m_Grp: "matches r s c s1 c1 \<Longrightarrow> matches (Grp i r) s c s1 (c1(i := take (length s - length s1) s))"
| m_EOL: "s = [] \<or> hd s = NL \<Longrightarrow> matches EOL s c s c"

fun grps :: "rx \<Rightarrow> nat set" where
  "grps (Cat a b) = grps a \<union> grps b"
| "grps (Or a b) = grps a \<union> grps b"
| "grps (Star g a) = grps a"
| "grps (Grp i a) = insert i (grps a)"
| "grps r = {}"


text \<open>The part of \<^verbatim>\<open>reFileInfo\<close> after its second group.\<close>

definition info_tail :: rx where
  "info_tail =
     Seq [lit_ci '')'', Plus True sp, Grp 3 (Seq [Star False dot, Star False paren_group]),
          Opt paren_group, EOL]"


text \<open>The example report of the specification.\<close>

definition sample_report :: string where
  "sample_report =
     ''85.50% (.pdf) Adobe Portable Document Format'' @ [NL] @
     ''     Mime type: application/pdf'' @ [NL, NL] @
     ''10.00% (.ps) PostScript''"


text \<open>
  A parenthesized group after a name, as white space and the text between the parentheses,
  and the last two items of \<^verbatim>\<open>reFileInfo\<close>.
\<close>

definition qual_text :: "string \<times> string \<Rightarrow> string" where
  "qual_text q = fst q @ ''('' @ snd q @ '')''"

definition name_tail :: rx where
  "name_tail = Cat (Opt paren_group) EOL"


text \<open>
  \<open>header_place b\<close>: somewhere in \<open>b\<close> a run of digits and dots is followed by a percent
  sign, white space, an opening parenthesis with a dot, a closing parenthesis on the same
  line, and white space. \<open>percent_token b\<close>: somewhere in \<open>b\<close> a percent sign is followed by
  white space and then an opening parenthesis with a dot.
\<close>

definition header_place :: "string \<Rightarrow> bool" where
  "header_place b =
     (\<exists>pre p ws u ws2 rest.
        b = pre @ p @ ''%'' @ ws @ ''(.'' @ u @ '')'' @ ws2 @ rest \<and>
        p \<noteq> [] \<and> (\<forall>x \<in> set p. x \<in> set ''0123456789.'') \<and>
        ws \<noteq> [] \<and> (\<forall>x \<in> set ws. x \<in> set perl_space) \<and>
        NL \<notin> set u \<and>
        ws2 \<noteq> [] \<and> (\<forall>x \<in> set ws2. x \<in> set perl_space))"

fun percent_token :: "string \<Rightarrow> bool" where
  "percent_token [] = False"
| "percent_token (x # t) =
     ((x = CHR ''%'' \<and> t \<noteq> [] \<and> hd t \<in> set perl_space \<and>
       take 2 (dropWhile (\<lambda>y. y \<in> set perl_space) t) = ''(.'') \<or> percent_token t)"


section \<open>Properties\<close>

subsection \<open>Unfolding the matcher\<close>

declare rmatch.simps [simp del]

lemma rmatch_fail: "\<forall>s c. k s c = None \<Longrightarrow> rmatch r s c k = None"
proof (induction r s c k rule: rmatch.induct)
  case (1 s c k)
  then show ?case by (subst rmatch.simps) blast
next
  case (2 cl s c k)
  then show ?case by (subst rmatch.simps) (simp split: list.splits)
next
  case (3 r1 r2 s c k)
  have "\<forall>s' c'. rmatch r2 s' c' k = None"
    using "3.IH"(1) "3.prems" by blast
  then have "rmatch r1 s c (\<lambda>s' c'. rmatch r2 s' c' k) = None"
    using "3.IH"(2) by blast
  then show ?case by (subst rmatch.simps)
next
  case (4 r1 r2 s c k)
  have "rmatch r1 s c k = None" "rmatch r2 s c k = None"
    using "4.IH" "4.prems" by blast+
  then show ?case by (subst rmatch.simps) simp
next
  case (5 g r s c k)
  let ?k = "\<lambda>s' c'. if length s' < length s then rmatch (Star g r) s' c' k else None"
  have ksc: "k s c = None"
    using "5.prems" by blast
  have inner: "\<forall>s' c'. ?k s' c' = None"
  proof (intro allI)
    fix s' c'
    show "?k s' c' = None"
    proof (cases "length s' < length s")
      case True
      then have "rmatch (Star g r) s' c' k = None"
        using "5.IH"(1)[of s' c'] "5.IH"(3)[of s' c'] "5.prems" ksc by (cases g) blast+
      then show ?thesis by simp
    qed simp
  qed
  have "rmatch r s c ?k = None"
    using "5.IH"(2,4) ksc inner by (cases g) blast+
  then show ?case
    using ksc by (subst rmatch.simps) simp
next
  case (6 i r s c k)
  have "\<forall>s' c'. k s' (c'(i := take (length s - length s') s)) = None"
    using "6.prems" by blast
  then have "rmatch r s c (\<lambda>s' c'. k s' (c'(i := take (length s - length s') s))) = None"
    using "6.IH" by blast
  then show ?case by (subst rmatch.simps)
next
  case (7 s c k)
  then show ?case by (subst rmatch.simps) simp
qed

lemma rmatch_Nil:
  "rmatch (Ch cl) [] c k = None"
  "rmatch (Cat r1 r2) [] c k = rmatch r1 [] c (\<lambda>s' c'. rmatch r2 s' c' k)"
  "rmatch (Or r1 r2) [] c k = (case rmatch r1 [] c k of Some a \<Rightarrow> Some a | None \<Rightarrow> rmatch r2 [] c k)"
  "rmatch (Star g r) [] c k = k [] c"
  "rmatch (Grp i r) [] c k = rmatch r [] c (\<lambda>s' c'. k s' (c'(i := [])))"
  "rmatch EOL [] c k = k [] c"
  by (simp_all add: rmatch.simps rmatch_fail split: option.splits)

lemma rmatch_Cons:
  "rmatch (Ch cl) (x # t) c k = (if cmatch cl x then k t c else None)"
  "rmatch (Cat r1 r2) (x # t) c k = rmatch r1 (x # t) c (\<lambda>s' c'. rmatch r2 s' c' k)"
  "rmatch (Or r1 r2) (x # t) c k = (case rmatch r1 (x # t) c k of Some a \<Rightarrow> Some a | None \<Rightarrow> rmatch r2 (x # t) c k)"
  "rmatch (Star True r) (x # t) c k =
        (case rmatch r (x # t) c (\<lambda>s' c'. if length s' \<le> length t then rmatch (Star True r) s' c' k else None) of
           Some a \<Rightarrow> Some a
         | None \<Rightarrow> k (x # t) c)"
  "rmatch (Star False r) (x # t) c k =
        (case k (x # t) c of
           Some a \<Rightarrow> Some a
         | None \<Rightarrow> rmatch r (x # t) c (\<lambda>s' c'. if length s' \<le> length t then rmatch (Star False r) s' c' k else None))"
  "rmatch (Grp i r) (x # t) c k = rmatch r (x # t) c (\<lambda>s' c'. k s' (c'(i := take (Suc (length t) - length s') (x # t))))"
  "rmatch EOL (x # t) c k = (if x = NL then k (x # t) c else None)"
  by (simp_all add: rmatch.simps less_Suc_eq_le cong: option.case_cong)

lemmas rmatch_eval = rmatch.simps(1) rmatch_Nil rmatch_Cons

lemma rmatch_Seq_Cons: "rmatch (Seq (r # rs)) s c k = rmatch r s c (\<lambda>s' c'. rmatch (Seq rs) s' c' k)"
  by (cases rs) (simp_all add: rmatch.simps)

lemma rmatch_Seq_Nil: "rmatch (Seq []) s c k = k s c"
  by (simp add: rmatch.simps)

lemma rmatch_Plus: "rmatch (Plus g r) s c k = rmatch r s c (\<lambda>s' c'. rmatch (Star g r) s' c' k)"
  by (simp add: Plus_def rmatch.simps)

lemma rmatch_Opt: "rmatch (Opt r) s c k = (case rmatch r s c k of Some a \<Rightarrow> Some a | None \<Rightarrow> k s c)"
  by (simp add: Opt_def rmatch.simps cong: option.case_cong)

lemma rmatch_Grp: "rmatch (Grp i r) s c k = rmatch r s c (\<lambda>s' c'. k s' (c'(i := take (length s - length s') s)))"
  by (simp add: rmatch.simps)

subsection \<open>Stars over one character class\<close>

lemma star_greedy_hit:
  assumes "\<forall>x \<in> set ws. cmatch cl x" "rest = [] \<or> \<not> cmatch cl (hd rest)" "k rest c = Some a"
  shows "rmatch (Star True (Ch cl)) (ws @ rest) c k = Some a"
  using assms
proof (induction ws)
  case Nil
  then show ?case by (cases rest) (simp_all add: rmatch_eval)
next
  case (Cons x ws)
  then show ?case by (simp add: rmatch_eval)
qed

lemma star_greedy_end:
  assumes "\<forall>x \<in> set ws. cmatch cl x" "rest = [] \<or> \<not> cmatch cl (hd rest)"
    "\<forall>j < length ws. k (drop j ws @ rest) c = None"
  shows "rmatch (Star True (Ch cl)) (ws @ rest) c k = k rest c"
  using assms
proof (induction ws)
  case Nil
  then show ?case by (cases rest) (simp_all add: rmatch_eval)
next
  case (Cons x ws)
  have "\<forall>j < length ws. k (drop j ws @ rest) c = None"
    using Cons.prems(3) by (metis Suc_less_eq drop_Suc_Cons length_Cons)
  then have ih: "rmatch (Star True (Ch cl)) (ws @ rest) c k = k rest c"
    using Cons by simp
  have "k (x # ws @ rest) c = None"
    using Cons.prems(3) by (metis append_Cons drop0 length_greater_0_conv list.discI)
  then show ?case using Cons.prems(1) ih by (simp add: rmatch_eval split: option.splits)
qed

lemma star_lazy_skip:
  assumes "\<forall>x \<in> set xs. cmatch cl x" "\<forall>j < length xs. k (drop j xs @ rest) c = None"
  shows "rmatch (Star False (Ch cl)) (xs @ rest) c k = rmatch (Star False (Ch cl)) rest c k"
  using assms
proof (induction xs)
  case Nil
  then show ?case by simp
next
  case (Cons x xs)
  have "\<forall>j < length xs. k (drop j xs @ rest) c = None"
    using Cons.prems(2) by (metis Suc_less_eq drop_Suc_Cons length_Cons)
  then have ih: "rmatch (Star False (Ch cl)) (xs @ rest) c k = rmatch (Star False (Ch cl)) rest c k"
    using Cons by simp
  have "k (x # xs @ rest) c = None"
    using Cons.prems(2) by (metis append_Cons drop0 length_greater_0_conv list.discI)
  then show ?case using Cons.prems(1) ih by (simp add: rmatch_eval)
qed

lemma star_lazy_stop: "k s c = Some a \<Longrightarrow> rmatch (Star False r) s c k = Some a"
  by (simp add: rmatch.simps)


subsection \<open>The matcher only returns matches\<close>

inductive_simps matches_Eps: "matches Eps s c s' c'"
inductive_simps matches_Ch: "matches (Ch cl) s c s' c'"
inductive_simps matches_Cat: "matches (Cat r1 r2) s c s' c'"
inductive_simps matches_Or: "matches (Or r1 r2) s c s' c'"
inductive_simps matches_Grp: "matches (Grp i r) s c s' c'"
inductive_simps matches_EOL: "matches EOL s c s' c'"

lemma rmatch_sound:
  "rmatch r s c k = Some a \<longrightarrow> (\<exists>s' c'. matches r s c s' c' \<and> k s' c' = Some a)"
proof (induction r s c k rule: rmatch.induct)
  case (1 s c k)
  then show ?case by (auto simp: rmatch.simps intro: m_Eps)
next
  case (2 cl s c k)
  then show ?case by (auto simp: rmatch.simps split: list.splits if_splits intro: m_Ch)
next
  case (3 r1 r2 s c k)
  show ?case
  proof
    assume "rmatch (Cat r1 r2) s c k = Some a"
    then have "rmatch r1 s c (\<lambda>s' c'. rmatch r2 s' c' k) = Some a"
      by (simp add: rmatch.simps)
    then obtain s1 c1 where 1: "matches r1 s c s1 c1" "rmatch r2 s1 c1 k = Some a"
      using "3.IH"(2) by blast
    then obtain s2 c2 where 2: "matches r2 s1 c1 s2 c2" "k s2 c2 = Some a"
      using "3.IH"(1) by blast
    then show "\<exists>s' c'. matches (Cat r1 r2) s c s' c' \<and> k s' c' = Some a"
      using 1 m_Cat by blast
  qed
next
  case (4 r1 r2 s c k)
  show ?case
  proof
    assume a: "rmatch (Or r1 r2) s c k = Some a"
    show "\<exists>s' c'. matches (Or r1 r2) s c s' c' \<and> k s' c' = Some a"
    proof (cases "rmatch r1 s c k")
      case None
      then have "rmatch r2 s c k = Some a" using a by (simp add: rmatch.simps)
      then show ?thesis using "4.IH"(2) None m_OrR by blast
    next
      case (Some b)
      then have "rmatch r1 s c k = Some a" using a by (simp add: rmatch.simps)
      then show ?thesis using "4.IH"(1) m_OrL by blast
    qed
  qed
next
  case (5 g r s c k)
  let ?K = "\<lambda>s' c'. if length s' < length s then rmatch (Star g r) s' c' k else None"
  have step: "\<exists>s' c'. matches (Star g r) s c s' c' \<and> k s' c' = Some a"
    if body: "rmatch r s c ?K = Some a"
      and ih_r: "rmatch r s c ?K = Some a \<longrightarrow> (\<exists>s' c'. matches r s c s' c' \<and> ?K s' c' = Some a)"
      and ih_s: "\<And>x xa. length x < length s \<Longrightarrow>
                   rmatch (Star g r) x xa k = Some a \<longrightarrow> (\<exists>s' c'. matches (Star g r) x xa s' c' \<and> k s' c' = Some a)"
  proof -
    obtain s1 c1 where 1: "matches r s c s1 c1" "?K s1 c1 = Some a"
      using body ih_r by blast
    then have lt: "length s1 < length s" and r: "rmatch (Star g r) s1 c1 k = Some a"
      by (auto split: if_splits)
    then obtain s2 c2 where "matches (Star g r) s1 c1 s2 c2" "k s2 c2 = Some a"
      using ih_s by blast
    then show ?thesis using 1(1) lt m_StarS by blast
  qed
  have unf: "rmatch (Star g r) s c k =
      (if g then (case rmatch r s c ?K of Some a \<Rightarrow> Some a | None \<Rightarrow> k s c)
       else (case k s c of Some a \<Rightarrow> Some a | None \<Rightarrow> rmatch r s c ?K))"
    by (rule rmatch.simps)
  show ?case
  proof
    assume "rmatch (Star g r) s c k = Some a"
    then have a: "(if g then (case rmatch r s c ?K of Some a \<Rightarrow> Some a | None \<Rightarrow> k s c)
       else (case k s c of Some a \<Rightarrow> Some a | None \<Rightarrow> rmatch r s c ?K)) = Some a"
      unfolding unf .
    show "\<exists>s' c'. matches (Star g r) s c s' c' \<and> k s' c' = Some a"
    proof (cases g)
      case True
      show ?thesis
      proof (cases "rmatch r s c ?K")
        case None
        then have "k s c = Some a" using a True by simp
        then show ?thesis using m_Star0 by blast
      next
        case (Some b)
        then have "rmatch r s c ?K = Some a" using a True by simp
        then show ?thesis using step "5.IH"(1,2) True by blast
      qed
    next
      case False
      show ?thesis
      proof (cases "k s c")
        case None
        then have "rmatch r s c ?K = Some a" using a False by simp
        then show ?thesis using step "5.IH"(3,4) False None by blast
      next
        case (Some b)
        then have "k s c = Some a" using a False by simp
        then show ?thesis using m_Star0 by blast
      qed
    qed
  qed
next
  case (6 i r s c k)
  show ?case
  proof
    assume "rmatch (Grp i r) s c k = Some a"
    then have "rmatch r s c (\<lambda>s' c'. k s' (c'(i := take (length s - length s') s))) = Some a"
      by (simp add: rmatch.simps)
    then obtain s1 c1 where "matches r s c s1 c1" "k s1 (c1(i := take (length s - length s1) s)) = Some a"
      using "6.IH" by blast
    then show "\<exists>s' c'. matches (Grp i r) s c s' c' \<and> k s' c' = Some a"
      using m_Grp by blast
  qed
next
  case (7 s c k)
  then show ?case by (auto simp: rmatch.simps split: if_splits intro: m_EOL)
qed

lemma matches_suffix: "matches r s c s' c' \<Longrightarrow> \<exists>w. s = w @ s'"
proof (induction rule: matches.induct)
  case (m_Ch cl x t c)
  then show ?case by (metis append_Cons append_Nil)
qed auto

lemma matches_keeps: "matches r s c s' c' \<Longrightarrow> i \<notin> grps r \<Longrightarrow> c' i = c i"
  by (induction rule: matches.induct) auto

lemma matches_star_class:
  "matches r s c s' c' \<Longrightarrow> r = Star g (Ch cl) \<Longrightarrow> c' = c \<and> (\<exists>w. s = w @ s' \<and> (\<forall>x \<in> set w. cmatch cl x))"
proof (induction rule: matches.induct)
  case (m_StarS r s c s1 c1 g' s2 c2)
  then have "matches (Ch cl) s c s1 c1" by simp
  then obtain x where x: "s = x # s1" "cmatch cl x" "c1 = c"
    by (auto simp: matches_Ch)
  moreover obtain w where "s1 = w @ s2" "\<forall>x \<in> set w. cmatch cl x" "c2 = c1"
    using m_StarS by auto
  ultimately have "s = (x # w) @ s2 \<and> (\<forall>y \<in> set (x # w). cmatch cl y)" by simp
  then show ?case using \<open>c2 = c1\<close> \<open>c1 = c\<close> by blast
qed auto


subsection \<open>Evaluation on concrete text\<close>

lemma bitlen_num: "bitlen (numeral k) = Suc (bitlen (numeral k div 2))" "bitlen 0 = 0" "bitlen 1 = 1"
  by simp_all

declare bitlen.simps [simp del]
declare FindAllStringSubmatch.simps [simp del]
declare digits.simps [simp del]

lemma FindAll_Nil:
  "FindAllStringSubmatch r [] = (case search r [] of None \<Rightarrow> [] | Some (b, e, c) \<Rightarrow> [submatches r b e c])"
  by (subst FindAllStringSubmatch.simps) (simp split: option.splits)

lemma FindAll_Cons:
  "FindAllStringSubmatch r (x # t) =
     (case search r (x # t) of
        None \<Rightarrow> []
      | Some (b, e, c) \<Rightarrow>
          submatches r b e c # FindAllStringSubmatch r (if length e \<le> length t then e else t))"
  by (subst FindAllStringSubmatch.simps) (simp add: less_Suc_eq_le split: option.splits)

lemma upt_groups: "[Suc 0..<4] = [1, 2, 3]" "[Suc 0..<3] = [1, 2]"
  by (simp_all add: upt_rec)

lemmas rx_defs = reFileInfo_def reFileDetails_def detail_keys_def paren_group_def lit_ci_def fold_ci_def
  bytes_def Plus_def Opt_def perl_space_def ascii_lower_def ascii_upper_def
lemmas find_defs = FindStringSubmatch_def match_here_def submatches_def no_caps_def FindAll_Nil FindAll_Cons
  upt_groups
lemmas float_defs = ParseFloat_def isDigit_def float64_nearest_def mantissa_def digit_val_def ilog2_def
  round_even_def pow2_def bitlen_num
lemmas parse_defs = parseOutput_def parseBlock_def TrimSpace_def Replace_percent_def asciiSpace_def
  ToLower_def isASCII_def applyDetail_def Let_def
lemmas eval_all = parse_defs rx_defs find_defs float_defs rmatch_eval

subsection \<open>ASCII case\<close>

lemma ascii_lower_add:
  "65 \<le> (of_char c :: nat) \<Longrightarrow> (of_char c :: nat) \<le> 90 \<Longrightarrow> ascii_lower c = char_of (of_char c + 32 :: nat)"
proof (cases c)
  case (Char b0 b1 b2 b3 b4 b5 b6 b7)
  assume "65 \<le> (of_char c :: nat)" "(of_char c :: nat) \<le> 90"
  then have "\<not> b5"
    using Char by (cases b6; cases b7; cases b0; cases b1; cases b2; cases b3; cases b4) auto
  then show ?thesis
    using Char \<open>65 \<le> of_char c\<close> \<open>of_char c \<le> 90\<close>
    by (auto simp: ascii_lower_def eq_commute [of _ "char_of _"] char_of_eq_iff)
qed

lemma of_char_ascii_lower:
  "(of_char (ascii_lower c) :: nat) =
     (if 65 \<le> (of_char c :: nat) \<and> (of_char c :: nat) \<le> 90 then of_char c + 32 else of_char c)"
proof (cases "65 \<le> (of_char c :: nat) \<and> (of_char c :: nat) \<le> 90")
  case True
  then have "ascii_lower c = char_of (of_char c + 32 :: nat)"
    using ascii_lower_add by blast
  then show ?thesis using True by (simp add: of_char_of)
next
  case False
  then show ?thesis by (auto simp: ascii_lower_def)
qed

lemma char_eq_iff_nat: "x = y \<longleftrightarrow> (of_char x :: nat) = of_char y"
  by auto

lemma ascii_lower_idem: "ascii_lower (ascii_lower c) = ascii_lower c"
  by (subst char_eq_iff_nat) (simp add: of_char_ascii_lower)

lemma isASCII_lower: "isASCII s \<Longrightarrow> isASCII (map ascii_lower s)"
  by (auto simp: isASCII_def of_char_ascii_lower)

lemma ToLower_ascii_idem: "isASCII s \<Longrightarrow> ToLower uni (ToLower uni s) = ToLower uni s"
  by (simp add: ToLower_def isASCII_lower ascii_lower_idem)

subsection \<open>The leftmost match\<close>

lemma search_Some:
  "search r s = Some (b, e, c) \<Longrightarrow> (\<exists>pre. s = pre @ b) \<and> match_here r b = Some (e, c)"
proof (induction s)
  case Nil
  then show ?case by (auto split: option.splits)
next
  case (Cons x t)
  show ?case
  proof (cases "match_here r (x # t)")
    case None
    then have "search r t = Some (b, e, c)" using Cons.prems by simp
    then obtain pre where "t = pre @ b" "match_here r b = Some (e, c)" using Cons.IH by blast
    then have "x # t = (x # pre) @ b" by simp
    then show ?thesis using \<open>match_here r b = Some (e, c)\<close> by blast
  next
    case (Some p)
    then show ?thesis using Cons.prems by (cases p) auto
  qed
qed

lemma search_skip:
  "\<forall>i < length pad. match_here r (drop i pad @ s) = None \<Longrightarrow> search r (pad @ s) = search r s"
proof (induction pad)
  case Nil
  then show ?case by simp
next
  case (Cons x pad)
  have "\<forall>i < length pad. match_here r (drop i pad @ s) = None"
    using Cons.prems by (metis Suc_less_eq drop_Suc_Cons length_Cons)
  moreover have "match_here r (x # pad @ s) = None"
    using Cons.prems by (metis append_Cons drop0 length_greater_0_conv list.discI)
  ultimately show ?case using Cons.IH by simp
qed

lemma search_hit: "match_here r s = Some (e, c) \<Longrightarrow> search r s = Some (s, e, c)"
  by (cases s) simp_all

lemma num_subexp_reFileInfo: "num_subexp reFileInfo = 3"
  by (simp add: rx_defs)

lemma num_subexp_reFileDetails: "num_subexp reFileDetails = 2"
  by (simp add: rx_defs)

lemma submatches_reFileInfo: "submatches reFileInfo b e c = [take (length b - length e) b, c 1, c 2, c 3]"
  by (simp add: submatches_def num_subexp_reFileInfo upt_groups)

lemma submatches_reFileDetails: "submatches reFileDetails b e c = [take (length b - length e) b, c 1, c 2]"
  by (simp add: submatches_def num_subexp_reFileDetails upt_groups)

lemma FindStringSubmatch_reFileInfo:
  "FindStringSubmatch reFileInfo s =
     (case search reFileInfo s of None \<Rightarrow> [] | Some (b, e, c) \<Rightarrow> [take (length b - length e) b, c 1, c 2, c 3])"
  by (simp add: FindStringSubmatch_def submatches_reFileInfo split: option.splits)

subsection \<open>The loops of parseOutput\<close>

lemma applyDetail_header:
  "Extension (applyDetail f m) = Extension f \<and> Probability (applyDetail f m) = Probability f \<and>
   Name (applyDetail f m) = Name f"
  by (simp add: applyDetail_def)

lemma foldl_applyDetail_header:
  "Extension (foldl applyDetail f ms) = Extension f \<and> Probability (foldl applyDetail f ms) = Probability f \<and>
   Name (foldl applyDetail f ms) = Name f"
  by (induction ms arbitrary: f) (simp_all add: applyDetail_header)

lemma parseBlock_Some:
  assumes "parseBlock uni b = Some r"
  shows "\<exists>st e c. search reFileInfo b = Some (st, e, c) \<and> Extension r = ToLower uni (c 2) \<and>
           Name r = c 3 \<and> ParseFloat (TrimSpace (Replace_percent (c 1))) = Inr (Probability r)"
  using assms foldl_applyDetail_header
  by (auto simp: parseBlock_def FindStringSubmatch_reFileInfo Let_def split: option.splits if_splits sum.splits)

lemma foldl_collect:
  "foldl (\<lambda>acc b. case f b of None \<Rightarrow> acc | Some x \<Rightarrow> acc @ [x]) acc bs = acc @ List.map_filter f bs"
  by (induction bs arbitrary: acc) (auto simp: List.map_filter_simps split: option.splits)

lemma parseOutput_blocks:
  "parseOutput uni out = (Some (List.map_filter (parseBlock uni) (Split_blank [] (ReplaceAll_crlf out))), None)"
  by (simp add: parseOutput_def Let_def foldl_collect)

lemma parseOutput_record:
  "fst (parseOutput uni out) = Some rs \<Longrightarrow>
     (r \<in> set rs \<longleftrightarrow> (\<exists>b \<in> set (Split_blank [] (ReplaceAll_crlf out)). parseBlock uni b = Some r))"
  by (force simp: parseOutput_blocks List.map_filter_def image_iff)


subsection \<open>What a match of the header pattern looks like\<close>

lemma matches_lit1: "matches (lit_ci [a]) s c s' c' \<Longrightarrow> a \<in> set ''%().:'' \<Longrightarrow> s = a # s' \<and> c' = c"
  by (auto simp: lit_ci_def fold_ci_def ascii_lower_def ascii_upper_def matches_Ch)

lemma matches_plus_class:
  assumes "matches (Plus g (Ch cl)) s c s' c'"
  shows "c' = c \<and> (\<exists>w. w \<noteq> [] \<and> s = w @ s' \<and> (\<forall>x \<in> set w. cmatch cl x))"
proof -
  obtain s1 c1 where 1: "matches (Ch cl) s c s1 c1" "matches (Star g (Ch cl)) s1 c1 s' c'"
    using assms by (auto simp: Plus_def matches_Cat)
  then obtain x where x: "s = x # s1" "cmatch cl x" "c1 = c"
    by (auto simp: matches_Ch)
  obtain w where w: "c' = c1" "s1 = w @ s'" "\<forall>x \<in> set w. cmatch cl x"
    using matches_star_class [OF 1(2)] by blast
  have "s = (x # w) @ s' \<and> x # w \<noteq> [] \<and> (\<forall>y \<in> set (x # w). cmatch cl y)"
    using x w by simp
  then show ?thesis using x w by blast
qed

lemma grps_info_tail: "grps info_tail = {3}"
  by (simp add: info_tail_def rx_defs)

lemma reFileInfo_split:
  "reFileInfo =
     Cat (Grp 1 (Cat (Plus True (Ch (In ''0123456789.''))) (lit_ci ''%'')))
       (Cat (Plus True sp) (Cat (lit_ci ''('') (Cat (Grp 2 (Cat (lit_ci ''.'') (Star False dot))) info_tail)))"
  by (simp add: reFileInfo_def info_tail_def)

lemma reFileInfo_shape:
  assumes "matches reFileInfo s c s' c'"
  shows "\<exists>p ws u t. s = p @ CHR ''%'' # ws @ CHR ''('' # CHR ''.'' # u @ t \<and>
           p \<noteq> [] \<and> (\<forall>x \<in> set p. x \<in> set ''0123456789.'') \<and> ws \<noteq> [] \<and>
           c' 1 = p @ ''%'' \<and> c' 2 = CHR ''.'' # u"
proof -
  from assms obtain s1 c1 s2 c2 s3 c3 s4 c4 where
    g1: "matches (Grp 1 (Cat (Plus True (Ch (In ''0123456789.''))) (lit_ci ''%''))) s c s1 c1" and
    w1: "matches (Plus True sp) s1 c1 s2 c2" and
    op: "matches (lit_ci ''('') s2 c2 s3 c3" and
    g2: "matches (Grp 2 (Cat (lit_ci ''.'') (Star False dot))) s3 c3 s4 c4" and
    rest: "matches info_tail s4 c4 s' c'"
    unfolding reFileInfo_split matches_Cat by blast
  from g1 obtain sa ca cb where
    d: "matches (Plus True (Ch (In ''0123456789.''))) s c sa ca" and
    pc: "matches (lit_ci ''%'') sa ca s1 cb" and
    c1: "c1 = cb(1 := take (length s - length s1) s)"
    unfolding matches_Grp matches_Cat by blast
  obtain p where p: "p \<noteq> []" "s = p @ sa" "\<forall>x \<in> set p. x \<in> set ''0123456789.''" and ca: "ca = c"
    using matches_plus_class [OF d] unfolding cmatch.simps by blast
  have sa: "sa = CHR ''%'' # s1"
    using matches_lit1 [OF pc] by simp
  have c1_1: "c1 1 = p @ ''%''"
    using c1 p sa by simp
  obtain ws where ws: "ws \<noteq> []" "s1 = ws @ s2" "c2 = c1"
    using matches_plus_class [OF w1] by blast
  have s2: "s2 = CHR ''('' # s3" "c3 = c2"
    using matches_lit1 [OF op] by simp_all
  from g2 obtain sb cc cd where
    dt: "matches (lit_ci ''.'') s3 c3 sb cc" and
    st: "matches (Star False dot) sb cc s4 cd" and
    c4: "c4 = cd(2 := take (length s3 - length s4) s3)"
    unfolding matches_Grp matches_Cat by blast
  have s3: "s3 = CHR ''.'' # sb" "cc = c3"
    using matches_lit1 [OF dt] by simp_all
  obtain u where u: "sb = u @ s4" "cd = cc"
    using matches_star_class [OF st] by blast
  have c4_2: "c4 2 = CHR ''.'' # u" and c4_1: "c4 1 = p @ ''%''"
    using c4 s3 u c1_1 ws s2 by simp_all
  have "c' 1 = c4 1" "c' 2 = c4 2"
    using matches_keeps [OF rest] by (simp_all add: grps_info_tail)
  moreover have "s = p @ CHR ''%'' # ws @ CHR ''('' # CHR ''.'' # u @ s4"
    using p sa ws s2 s3 u by simp
  ultimately have "s = p @ CHR ''%'' # ws @ CHR ''('' # CHR ''.'' # u @ s4 \<and>
           p \<noteq> [] \<and> (\<forall>x \<in> set p. x \<in> set ''0123456789.'') \<and> ws \<noteq> [] \<and>
           c' 1 = p @ ''%'' \<and> c' 2 = CHR ''.'' # u"
    using p ws c4_1 c4_2 by simp
  then show ?thesis by blast
qed

lemma match_here_shape:
  assumes "match_here reFileInfo s = Some (e, c)"
  shows "\<exists>p ws u t. s = p @ CHR ''%'' # ws @ CHR ''('' # CHR ''.'' # u @ t \<and>
           p \<noteq> [] \<and> (\<forall>x \<in> set p. x \<in> set ''0123456789.'') \<and> ws \<noteq> [] \<and>
           c 1 = p @ ''%'' \<and> c 2 = CHR ''.'' # u"
proof -
  obtain s' c' where "matches reFileInfo s no_caps s' c'" "Some (s', c') = Some (e, c)"
    using assms rmatch_sound [of reFileInfo s no_caps "\<lambda>s' c. Some (s', c)" "(e, c)"]
    unfolding match_here_def by blast
  then show ?thesis using reFileInfo_shape by blast
qed

lemma TrimSpace_id: "s \<noteq> [] \<Longrightarrow> hd s \<notin> set asciiSpace \<Longrightarrow> last s \<notin> set asciiSpace \<Longrightarrow> TrimSpace s = s"
proof -
  assume a: "s \<noteq> []" "hd s \<notin> set asciiSpace" "last s \<notin> set asciiSpace"
  then have 1: "dropWhile (\<lambda>x. x \<in> set asciiSpace) s = s"
    by (cases s) auto
  have "rev s \<noteq> []" "hd (rev s) \<notin> set asciiSpace"
    using a by (simp_all add: hd_rev)
  then have 2: "dropWhile (\<lambda>x. x \<in> set asciiSpace) (rev s) = rev s"
    by (cases "rev s") auto
  show ?thesis by (simp add: TrimSpace_def 1 2)
qed

text \<open>
  The probability field handed to \<open>ParseFloat\<close> is never empty and holds digits and dots
  only: the test for an empty field in \<open>parseOutput\<close> never fires.
\<close>

lemma digit_dot_plain: "x \<in> set ''0123456789.'' \<Longrightarrow> x \<noteq> CHR ''%'' \<and> x \<notin> set asciiSpace"
  by (auto simp: asciiSpace_def)

lemma prob_field_chars:
  assumes "search reFileInfo b = Some (st, e, c)"
  shows "TrimSpace (Replace_percent (c 1)) \<noteq> [] \<and>
         (\<forall>x \<in> set (TrimSpace (Replace_percent (c 1))). x \<in> set ''0123456789.'') \<and>
         c 1 = TrimSpace (Replace_percent (c 1)) @ ''%''"
proof -
  have "match_here reFileInfo st = Some (e, c)"
    using search_Some [OF assms] by blast
  then obtain p where p: "p \<noteq> []" "\<forall>x \<in> set p. x \<in> set ''0123456789.''" "c 1 = p @ ''%''"
    using match_here_shape by blast
  have plain: "\<forall>x \<in> set p. x \<noteq> CHR ''%'' \<and> x \<notin> set asciiSpace"
    using p(2) digit_dot_plain by blast
  then have "filter (\<lambda>x. x \<noteq> CHR ''%'') p = p"
    by (simp add: filter_id_conv)
  then have rp: "Replace_percent (c 1) = p"
    unfolding Replace_percent_def p(3) by simp
  have "hd p \<in> set p" "last p \<in> set p"
    using p(1) by simp_all
  then have "hd p \<notin> set asciiSpace" "last p \<notin> set asciiSpace"
    using plain by blast+
  then have "TrimSpace p = p"
    using TrimSpace_id p(1) by blast
  then show ?thesis unfolding rp using p by simp
qed


subsection \<open>Containment\<close>

lemma HasPrefix_iff: "HasPrefix s p = (\<exists>post. s = p @ post)"
  unfolding HasPrefix_def
  by (metis append_eq_conv_conj append_take_drop_id length_append le_add1)

lemma Contains_occurs: "Contains s sub = occurs sub s"
proof (induction s)
  case Nil
  then show ?case by (auto simp: occurs_def HasPrefix_iff)
next
  case (Cons x t)
  show ?case
  proof
    assume "Contains (x # t) sub"
    then consider "HasPrefix (x # t) sub" | "occurs sub t"
      using Cons by auto
    then show "occurs sub (x # t)"
    proof cases
      case 1
      then show ?thesis unfolding occurs_def HasPrefix_iff by (metis append_Nil)
    next
      case 2
      then obtain pre post where "t = pre @ sub @ post" unfolding occurs_def by blast
      then have "x # t = (x # pre) @ sub @ post" by simp
      then show ?thesis unfolding occurs_def by blast
    qed
  next
    assume "occurs sub (x # t)"
    then obtain pre post where eq: "x # t = pre @ sub @ post" unfolding occurs_def by blast
    show "Contains (x # t) sub"
    proof (cases pre)
      case Nil
      then have "HasPrefix (x # t) sub" using eq unfolding HasPrefix_iff by auto
      then show ?thesis by simp
    next
      case (Cons y pre')
      then have "t = pre' @ sub @ post" using eq by simp
      then have "occurs sub t" unfolding occurs_def by blast
      then show ?thesis using Cons.IH by simp
    qed
  qed
qed


subsection \<open>The header pattern on a well-formed header\<close>

lemma lit_ci_1:
  "lit_ci ''%'' = Ch (In ''%%'')" "lit_ci ''('' = Ch (In ''(('')" "lit_ci '')'' = Ch (In ''))'')"
  "lit_ci ''.'' = Ch (In ''..'')" "lit_ci '':'' = Ch (In ''::'')"
  by (simp_all add: lit_ci_def fold_ci_def ascii_lower_def ascii_upper_def)

lemma rmatch_lit1:
  assumes "a \<in> set ''%().:''"
  shows "rmatch (lit_ci [a]) s c k = (case s of [] \<Rightarrow> None | x # t \<Rightarrow> if x = a then k t c else None)"
proof -
  have "lit_ci [a] = Ch (In [a, a])"
    using assms lit_ci_1 by auto
  then show ?thesis
    by (cases s) (simp_all add: rmatch_eval)
qed

lemma paren_group_split:
  "paren_group = Cat (Plus True sp) (Cat (lit_ci ''('') (Cat (Plus True (Ch (NotIn ''()''))) (lit_ci '')'')))"
  by (simp add: paren_group_def)

lemma info_tail_split:
  "info_tail = Cat (lit_ci '')'') (Cat (Plus True sp)
     (Cat (Grp 3 (Cat (Star False dot) (Star False paren_group))) name_tail))"
  by (simp add: info_tail_def name_tail_def)

lemma drop_run_hd:
  assumes "j < length ws"
  shows "\<exists>y t. drop j ws @ rest = y # t \<and> y \<in> set ws"
proof -
  have "drop j ws \<noteq> []" using assms by simp
  then obtain y t' where "drop j ws = y # t'" by (cases "drop j ws") auto
  moreover have "y \<in> set ws"
    by (metis calculation in_set_dropD list.set_intros(1))
  ultimately show ?thesis by auto
qed

lemma paren_group_run:
  assumes "ws \<noteq> []" "\<forall>x \<in> set ws. x \<in> set perl_space" "q \<noteq> []" "\<forall>x \<in> set q. x \<notin> set ''()''"
  shows "rmatch paren_group (ws @ CHR ''('' # q @ CHR '')'' # rest) c k = k rest c"
proof -
  let ?K2 = "\<lambda>s' c'. rmatch (lit_ci '')'') s' c' k"
  let ?K1 = "\<lambda>s' c'. rmatch (Cat (lit_ci ''('') (Cat (Plus True (Ch (NotIn ''()''))) (lit_ci '')''))) s' c' k"
  obtain q0 q' where q: "q = q0 # q'" using assms(3) by (cases q) auto
  obtain w0 ws' where w: "ws = w0 # ws'" using assms(1) by (cases ws) auto
  have inner: "rmatch (Star True (Ch (NotIn ''()''))) (q' @ CHR '')'' # rest) c ?K2 = ?K2 (CHR '')'' # rest) c"
  proof (rule star_greedy_end)
    show "\<forall>x \<in> set q'. cmatch (NotIn ''()'') x" using assms(4) q by simp
    show "CHR '')'' # rest = [] \<or> \<not> cmatch (NotIn ''()'') (hd (CHR '')'' # rest))" by simp
    show "\<forall>j < length q'. ?K2 (drop j q' @ CHR '')'' # rest) c = None"
    proof (intro allI impI)
      fix j assume "j < length q'"
      then obtain y t where "drop j q' @ CHR '')'' # rest = y # t" "y \<in> set q'"
        using drop_run_hd by blast
      moreover have "y \<noteq> CHR '')''" using \<open>y \<in> set q'\<close> assms(4) q by auto
      ultimately show "?K2 (drop j q' @ CHR '')'' # rest) c = None"
        by (simp add: rmatch_lit1)
    qed
  qed
  have k1: "?K1 (CHR ''('' # q @ CHR '')'' # rest) c = k rest c"
    using inner assms(4) q
    by (simp add: rmatch.simps(3) rmatch_lit1 rmatch_Plus rmatch_Cons(1))
  have outer: "rmatch (Star True sp) (ws' @ CHR ''('' # q @ CHR '')'' # rest) c ?K1
                 = ?K1 (CHR ''('' # q @ CHR '')'' # rest) c"
  proof (rule star_greedy_end)
    show "\<forall>x \<in> set ws'. cmatch (In perl_space) x" using assms(2) w by simp
    show "CHR ''('' # q @ CHR '')'' # rest = [] \<or> \<not> cmatch (In perl_space) (hd (CHR ''('' # q @ CHR '')'' # rest))"
      by (simp add: perl_space_def)
    show "\<forall>j < length ws'. ?K1 (drop j ws' @ CHR ''('' # q @ CHR '')'' # rest) c = None"
    proof (intro allI impI)
      fix j assume "j < length ws'"
      then obtain y t where "drop j ws' @ CHR ''('' # q @ CHR '')'' # rest = y # t" "y \<in> set ws'"
        using drop_run_hd by blast
      moreover have "y \<noteq> CHR ''(''" using \<open>y \<in> set ws'\<close> assms(2) w by (auto simp: perl_space_def)
      ultimately show "?K1 (drop j ws' @ CHR ''('' # q @ CHR '')'' # rest) c = None"
        by (simp add: rmatch.simps(3) rmatch_lit1)
    qed
  qed
  show ?thesis
    unfolding paren_group_split
    using outer k1 assms(2) w
    by (simp add: rmatch.simps(3) rmatch_Plus rmatch_Cons(1))
qed

lemma paren_group_fail:
  assumes "\<forall>y \<in> set ws. y \<in> set perl_space" "x \<notin> set perl_space" "x \<noteq> CHR ''(''"
  shows "rmatch paren_group (ws @ x # t) c k = None"
proof (cases ws)
  case Nil
  then show ?thesis
    unfolding paren_group_split using assms(2)
    by (simp add: rmatch.simps(3) rmatch_Plus rmatch_Cons(1))
next
  case (Cons w0 ws')
  let ?K1 = "\<lambda>s' c'. rmatch (Cat (lit_ci ''('') (Cat (Plus True (Ch (NotIn ''()''))) (lit_ci '')''))) s' c' k"
  have "rmatch (Star True sp) (ws' @ x # t) c ?K1 = ?K1 (x # t) c"
  proof (rule star_greedy_end)
    show "\<forall>x \<in> set ws'. cmatch (In perl_space) x" using assms(1) Cons by simp
    show "x # t = [] \<or> \<not> cmatch (In perl_space) (hd (x # t))" using assms(2) by simp
    show "\<forall>j < length ws'. ?K1 (drop j ws' @ x # t) c = None"
    proof (intro allI impI)
      fix j assume "j < length ws'"
      then obtain y t' where "drop j ws' @ x # t = y # t'" "y \<in> set ws'"
        using drop_run_hd by blast
      moreover have "y \<noteq> CHR ''(''" using \<open>y \<in> set ws'\<close> assms(1) Cons by (auto simp: perl_space_def)
      ultimately show "?K1 (drop j ws' @ x # t) c = None"
        by (simp add: rmatch.simps(3) rmatch_lit1)
    qed
  qed
  moreover have "?K1 (x # t) c = None"
    using assms(3) by (simp add: rmatch.simps(3) rmatch_lit1)
  ultimately show ?thesis
    unfolding paren_group_split using assms(1) Cons
    by (simp add: rmatch.simps(3) rmatch_Plus rmatch_Cons(1))
qed


subsection \<open>Every match is found\<close>

lemma rmatch_Star_some:
  "rmatch (Star g r) s c k \<noteq> None \<longleftrightarrow>
     (rmatch r s c (\<lambda>s' c'. if length s' < length s then rmatch (Star g r) s' c' k else None) \<noteq> None
      \<or> k s c \<noteq> None)"
  by (subst rmatch.simps) (auto split: option.splits)

lemma rmatch_complete:
  "matches r s c s' c' \<Longrightarrow> k s' c' \<noteq> None \<Longrightarrow> rmatch r s c k \<noteq> None"
proof (induction arbitrary: k rule: matches.induct)
  case (m_Eps s c)
  then show ?case by (simp add: rmatch.simps)
next
  case (m_Ch cl x t c)
  then show ?case by (simp add: rmatch_eval)
next
  case (m_Cat r1 s c s1 c1 r2 s2 c2)
  have "rmatch r2 s1 c1 k \<noteq> None" using m_Cat by blast
  then have "rmatch r1 s c (\<lambda>s' c'. rmatch r2 s' c' k) \<noteq> None"
    using m_Cat.IH(1) [of "\<lambda>s' c'. rmatch r2 s' c' k"] by simp
  then show ?case by (simp add: rmatch.simps)
next
  case (m_OrL r1 s c s' c' r2)
  then have "rmatch r1 s c k \<noteq> None" by blast
  then show ?case by (auto simp: rmatch.simps)
next
  case (m_OrR r2 s c s' c' r1)
  then have "rmatch r2 s c k \<noteq> None" by blast
  then show ?case by (auto simp: rmatch.simps split: option.splits)
next
  case (m_Star0 g r s c)
  then show ?case unfolding rmatch_Star_some by blast
next
  case (m_StarS r s c s1 c1 g s2 c2)
  let ?K = "\<lambda>s' c'. if length s' < length s then rmatch (Star g r) s' c' k else None"
  have "rmatch (Star g r) s1 c1 k \<noteq> None" using m_StarS by blast
  then have "?K s1 c1 \<noteq> None" using m_StarS.hyps(2) by simp
  then have "rmatch r s c ?K \<noteq> None" using m_StarS.IH(1) [of ?K] by simp
  then show ?case unfolding rmatch_Star_some by blast
next
  case (m_Grp r s c s1 c1 i)
  have "(\<lambda>s' c'. k s' (c'(i := take (length s - length s') s))) s1 c1 \<noteq> None"
    using m_Grp.prems by fast
  then have "rmatch r s c (\<lambda>s' c'. k s' (c'(i := take (length s - length s') s))) \<noteq> None"
    by (rule m_Grp.IH)
  then show ?case by (simp add: rmatch.simps)
next
  case (m_EOL s c)
  then show ?case by (auto simp: rmatch.simps)
qed

lemma matches_star_run:
  "\<forall>x \<in> set w. cmatch cl x \<Longrightarrow> matches (Star g (Ch cl)) (w @ s) c s c"
proof (induction w)
  case Nil
  then show ?case by (simp add: m_Star0)
next
  case (Cons x w)
  have "matches (Ch cl) (x # w @ s) c (w @ s) c" using Cons.prems by (simp add: m_Ch)
  moreover have "matches (Star g (Ch cl)) (w @ s) c s c" using Cons by simp
  ultimately show ?case using m_StarS [of "Ch cl" "x # w @ s" c "w @ s" c g s c] by simp
qed

lemma matches_plus_run:
  "w \<noteq> [] \<Longrightarrow> \<forall>x \<in> set w. cmatch cl x \<Longrightarrow> matches (Plus g (Ch cl)) (w @ s) c s c"
proof -
  assume a: "w \<noteq> []" "\<forall>x \<in> set w. cmatch cl x"
  then obtain x w' where w: "w = x # w'" by (cases w) auto
  have "matches (Ch cl) (x # w' @ s) c (w' @ s) c" using a w by (simp add: m_Ch)
  moreover have "matches (Star g (Ch cl)) (w' @ s) c s c" using a w matches_star_run by simp
  ultimately show ?thesis unfolding Plus_def using w m_Cat by fastforce
qed

lemma matches_lit1_intro: "a \<in> set ''%().:'' \<Longrightarrow> matches (lit_ci [a]) (a # s) c s c"
  using lit_ci_1 by (auto simp: matches_Ch)


subsection \<open>Where the header pattern matches\<close>

lemma header_match_place:
  assumes "matches reFileInfo s c s' c'"
  shows "\<exists>p ws u ws2 rest. s = p @ ''%'' @ ws @ ''(.'' @ u @ '')'' @ ws2 @ rest \<and>
           p \<noteq> [] \<and> (\<forall>x \<in> set p. x \<in> set ''0123456789.'') \<and>
           ws \<noteq> [] \<and> (\<forall>x \<in> set ws. x \<in> set perl_space) \<and> NL \<notin> set u \<and>
           ws2 \<noteq> [] \<and> (\<forall>x \<in> set ws2. x \<in> set perl_space)"
proof -
  from assms obtain s1 c1 s2 c2 s3 c3 s4 c4 where
    g1: "matches (Grp 1 (Cat (Plus True (Ch (In ''0123456789.''))) (lit_ci ''%''))) s c s1 c1" and
    w1: "matches (Plus True sp) s1 c1 s2 c2" and
    op: "matches (lit_ci ''('') s2 c2 s3 c3" and
    g2: "matches (Grp 2 (Cat (lit_ci ''.'') (Star False dot))) s3 c3 s4 c4" and
    rest: "matches info_tail s4 c4 s' c'"
    unfolding reFileInfo_split matches_Cat by blast
  from g1 obtain sa ca cb where
    d: "matches (Plus True (Ch (In ''0123456789.''))) s c sa ca" and
    pc: "matches (lit_ci ''%'') sa ca s1 cb"
    unfolding matches_Grp matches_Cat by blast
  obtain p where p: "p \<noteq> []" "s = p @ sa" "\<forall>x \<in> set p. x \<in> set ''0123456789.''"
    using matches_plus_class [OF d] unfolding cmatch.simps by blast
  have sa: "sa = CHR ''%'' # s1"
    using matches_lit1 [OF pc] by simp
  obtain ws where ws: "ws \<noteq> []" "s1 = ws @ s2" "\<forall>x \<in> set ws. x \<in> set perl_space"
    using matches_plus_class [OF w1] unfolding cmatch.simps by blast
  have s2: "s2 = CHR ''('' # s3"
    using matches_lit1 [OF op] by simp
  from g2 obtain sb cc cd where
    dt: "matches (lit_ci ''.'') s3 c3 sb cc" and
    st: "matches (Star False dot) sb cc s4 cd"
    unfolding matches_Grp matches_Cat by blast
  have s3: "s3 = CHR ''.'' # sb"
    using matches_lit1 [OF dt] by simp
  obtain u where u: "sb = u @ s4" "\<forall>x \<in> set u. cmatch (NotIn [NL]) x"
    using matches_star_class [OF st] by blast
  from rest obtain s5 c5 s6 c6 where
    cl: "matches (lit_ci '')'') s4 c4 s5 c5" and
    w2: "matches (Plus True sp) s5 c5 s6 c6"
    unfolding info_tail_split matches_Cat by blast
  have s4: "s4 = CHR '')'' # s5"
    using matches_lit1 [OF cl] by simp
  obtain ws2 where ws2: "ws2 \<noteq> []" "s5 = ws2 @ s6" "\<forall>x \<in> set ws2. x \<in> set perl_space"
    using matches_plus_class [OF w2] unfolding cmatch.simps by blast
  have "s = p @ ''%'' @ ws @ ''(.'' @ u @ '')'' @ ws2 @ s6"
    using p sa ws s2 s3 u s4 ws2 by simp
  moreover have "NL \<notin> set u" using u(2) by auto
  ultimately show ?thesis using p ws ws2 by blast
qed

lemma search_finds: "match_here r st \<noteq> None \<Longrightarrow> search r (pre @ st) \<noteq> None"
proof (induction pre)
  case Nil
  then show ?case by (cases st) (auto split: option.splits)
next
  case (Cons x pre)
  then show ?case by (auto split: option.splits)
qed

lemma line_split: "\<exists>l r. s = l @ r \<and> NL \<notin> set l \<and> (r = [] \<or> hd r = NL)"
proof -
  have "s = takeWhile (\<lambda>x. x \<noteq> NL) s @ dropWhile (\<lambda>x. x \<noteq> NL) s" by simp
  moreover have "NL \<notin> set (takeWhile (\<lambda>x. x \<noteq> NL) s)"
    by (metis (mono_tags, lifting) set_takeWhileD)
  moreover have "dropWhile (\<lambda>x. x \<noteq> NL) s = [] \<or> hd (dropWhile (\<lambda>x. x \<noteq> NL) s) = NL"
    by (metis (mono_tags, lifting) hd_dropWhile)
  ultimately show ?thesis by blast
qed

lemma info_tail_matches:
  assumes "ws2 \<noteq> []" "\<forall>x \<in> set ws2. x \<in> set perl_space"
  shows "\<exists>s' c'. matches info_tail (CHR '')'' # ws2 @ rest) c s' c'"
proof -
  obtain l r where lr: "rest = l @ r" "NL \<notin> set l" "r = [] \<or> hd r = NL"
    using line_split by blast
  have 1: "matches (lit_ci '')'') (CHR '')'' # ws2 @ rest) c (ws2 @ rest) c"
    using matches_lit1_intro [of "CHR '')''"] by simp
  have 2: "matches (Plus True sp) (ws2 @ rest) c rest c"
    using matches_plus_run assms by simp
  have "matches (Star False dot) (l @ r) c r c"
    using matches_star_run [of l "NotIn [NL]"] lr(2) by auto
  moreover have "matches (Star False paren_group) r c r c"
    by (rule m_Star0)
  ultimately have "matches (Cat (Star False dot) (Star False paren_group)) rest c r c"
    using lr(1) m_Cat by blast
  then have 3: "matches (Grp 3 (Cat (Star False dot) (Star False paren_group))) rest c r
                  (c(3 := take (length rest - length r) rest))"
    by (rule m_Grp)
  have "matches (Opt paren_group) r (c(3 := take (length rest - length r) rest)) r
          (c(3 := take (length rest - length r) rest))"
    unfolding Opt_def by (rule m_OrR) (rule m_Eps)
  moreover have "matches EOL r (c(3 := take (length rest - length r) rest)) r
          (c(3 := take (length rest - length r) rest))"
    using lr(3) by (rule m_EOL)
  ultimately have 4: "matches name_tail r (c(3 := take (length rest - length r) rest)) r
          (c(3 := take (length rest - length r) rest))"
    unfolding name_tail_def by (rule m_Cat)
  show ?thesis
    unfolding info_tail_split using 1 2 3 4 m_Cat by blast
qed

lemma header_place_matches:
  assumes "p \<noteq> []" "\<forall>x \<in> set p. x \<in> set ''0123456789.''"
    "ws \<noteq> []" "\<forall>x \<in> set ws. x \<in> set perl_space" "NL \<notin> set u"
    "ws2 \<noteq> []" "\<forall>x \<in> set ws2. x \<in> set perl_space"
  shows "match_here reFileInfo (p @ ''%'' @ ws @ ''(.'' @ u @ '')'' @ ws2 @ rest) \<noteq> None"
proof -
  let ?s4 = "CHR '')'' # ws2 @ rest"
  let ?s3 = "CHR ''.'' # u @ ?s4"
  let ?s2 = "CHR ''('' # ?s3"
  let ?s1 = "ws @ ?s2"
  let ?s = "p @ CHR ''%'' # ?s1"
  let ?c1 = "no_caps(1 := take (length ?s - length ?s1) ?s)"
  let ?c2 = "?c1(2 := take (length ?s3 - length ?s4) ?s3)"
  have "matches (Plus True (Ch (In ''0123456789.''))) ?s no_caps (CHR ''%'' # ?s1) no_caps"
    using matches_plus_run [of p "In ''0123456789.''"] assms(1,2) by simp
  moreover have "matches (lit_ci ''%'') (CHR ''%'' # ?s1) no_caps ?s1 no_caps"
    using matches_lit1_intro [of "CHR ''%''"] by simp
  ultimately have "matches (Cat (Plus True (Ch (In ''0123456789.''))) (lit_ci ''%'')) ?s no_caps ?s1 no_caps"
    by (rule m_Cat)
  then have g1: "matches (Grp 1 (Cat (Plus True (Ch (In ''0123456789.''))) (lit_ci ''%''))) ?s no_caps ?s1 ?c1"
    by (rule m_Grp)
  have w1: "matches (Plus True sp) ?s1 ?c1 ?s2 ?c1"
    using matches_plus_run [of ws "In perl_space"] assms(3,4) by simp
  have op: "matches (lit_ci ''('') ?s2 ?c1 ?s3 ?c1"
    using matches_lit1_intro [of "CHR ''(''"] by simp
  have "matches (lit_ci ''.'') ?s3 ?c1 (u @ ?s4) ?c1"
    using matches_lit1_intro [of "CHR ''.''"] by simp
  moreover have "matches (Star False dot) (u @ ?s4) ?c1 ?s4 ?c1"
    using matches_star_run [of u "NotIn [NL]"] assms(5) by auto
  ultimately have "matches (Cat (lit_ci ''.'') (Star False dot)) ?s3 ?c1 ?s4 ?c1"
    by (rule m_Cat)
  then have g2: "matches (Grp 2 (Cat (lit_ci ''.'') (Star False dot))) ?s3 ?c1 ?s4 ?c2"
    by (rule m_Grp)
  obtain s' c' where tl: "matches info_tail ?s4 ?c2 s' c'"
    using info_tail_matches [OF assms(6,7)] by blast
  have "matches reFileInfo ?s no_caps s' c'"
    unfolding reFileInfo_split
    by (rule m_Cat [OF g1], rule m_Cat [OF w1], rule m_Cat [OF op], rule m_Cat [OF g2], rule tl)
  then have "rmatch reFileInfo ?s no_caps (\<lambda>s' c. Some (s', c)) \<noteq> None"
    by (rule rmatch_complete) simp
  then show ?thesis by (simp add: match_here_def)
qed

lemma header_place_iff: "search reFileInfo b \<noteq> None \<longleftrightarrow> header_place b"
proof
  assume "search reFileInfo b \<noteq> None"
  then obtain st e c where "search reFileInfo b = Some (st, e, c)"
    by (cases "search reFileInfo b") auto
  then obtain pre where pre: "b = pre @ st" "match_here reFileInfo st = Some (e, c)"
    using search_Some by blast
  then obtain s' c' where m: "matches reFileInfo st no_caps s' c'"
    using rmatch_sound [of reFileInfo st no_caps "\<lambda>s' c. Some (s', c)" "(e, c)"]
    unfolding match_here_def by blast
  obtain p ws u ws2 rest where st: "st = p @ ''%'' @ ws @ ''(.'' @ u @ '')'' @ ws2 @ rest"
    and f: "p \<noteq> []" "\<forall>x \<in> set p. x \<in> set ''0123456789.''"
      "ws \<noteq> []" "\<forall>x \<in> set ws. x \<in> set perl_space" "NL \<notin> set u"
      "ws2 \<noteq> []" "\<forall>x \<in> set ws2. x \<in> set perl_space"
    using header_match_place [OF m] by auto
  have "b = pre @ p @ ''%'' @ ws @ ''(.'' @ u @ '')'' @ ws2 @ rest \<and>
        p \<noteq> [] \<and> (\<forall>x \<in> set p. x \<in> set ''0123456789.'') \<and>
        ws \<noteq> [] \<and> (\<forall>x \<in> set ws. x \<in> set perl_space) \<and>
        NL \<notin> set u \<and>
        ws2 \<noteq> [] \<and> (\<forall>x \<in> set ws2. x \<in> set perl_space)"
    using pre(1) st f by simp
  then show "header_place b"
    unfolding header_place_def by (intro exI)
next
  assume "header_place b"
  then obtain pre p ws u ws2 rest where b: "b = pre @ p @ ''%'' @ ws @ ''(.'' @ u @ '')'' @ ws2 @ rest"
    and f: "p \<noteq> []" "\<forall>x \<in> set p. x \<in> set ''0123456789.''"
      "ws \<noteq> []" "\<forall>x \<in> set ws. x \<in> set perl_space" "NL \<notin> set u"
      "ws2 \<noteq> []" "\<forall>x \<in> set ws2. x \<in> set perl_space"
    unfolding header_place_def by auto
  have "match_here reFileInfo (p @ ''%'' @ ws @ ''(.'' @ u @ '')'' @ ws2 @ rest) \<noteq> None"
    using f by (rule header_place_matches)
  then show "search reFileInfo b \<noteq> None"
    unfolding b by (rule search_finds)
qed

lemma dropWhile_run: "\<forall>x \<in> set ws. P x \<Longrightarrow> \<not> P y \<Longrightarrow> dropWhile P (ws @ y # t) = y # t"
  by (induction ws) auto

lemma header_place_percent_token: "header_place b \<Longrightarrow> percent_token b"
proof -
  assume "header_place b"
  then obtain pre p ws u ws2 rest where b: "b = (pre @ p) @ CHR ''%'' # ws @ CHR ''('' # CHR ''.'' # u @ '')'' @ ws2 @ rest"
    and ws: "ws \<noteq> []" "\<forall>x \<in> set ws. x \<in> set perl_space"
    unfolding header_place_def by auto
  have "CHR ''('' \<notin> set perl_space" by (simp add: perl_space_def)
  then have "dropWhile (\<lambda>y. y \<in> set perl_space) (ws @ CHR ''('' # CHR ''.'' # u @ '')'' @ ws2 @ rest)
               = CHR ''('' # CHR ''.'' # u @ '')'' @ ws2 @ rest"
    using dropWhile_run [of ws "\<lambda>y. y \<in> set perl_space"] ws(2) by blast
  moreover have "hd (ws @ CHR ''('' # CHR ''.'' # u @ '')'' @ ws2 @ rest) \<in> set perl_space"
    using ws by (cases ws) auto
  ultimately have base: "percent_token (CHR ''%'' # ws @ CHR ''('' # CHR ''.'' # u @ '')'' @ ws2 @ rest)"
    using ws(1) by simp
  have "percent_token (q @ CHR ''%'' # ws @ CHR ''('' # CHR ''.'' # u @ '')'' @ ws2 @ rest)" for q
    using base by (induction q) simp_all
  then show ?thesis using b by blast
qed

subsection \<open>The error classifier\<close>

text \<open>
  C2. \<open>checkTridError\<close> looks for its five literal signatures by case-sensitive
  containment, in the order no-file-specified, no-definitions-available,
  empty-definitions-package (both \<^verbatim>\<open>Def package\<close> and \<^verbatim>\<open>is empty!\<close> present), file-not-found,
  unknown-file-type; it returns the error of the first signature that applies, and none
  when no signature applies.
\<close>

theorem checkTridError_first_signature: "checkTridError out = first_signature out"
  by (simp add: checkTridError_def first_signature_def error_signatures_def Contains_occurs)

theorem checkTridError_first_signature_witness:
  "first_signature ''Unknown! Def package x is empty! No definitions available!'' = Some ErrNoDefinitions"
  using checkTridError_first_signature [of "''Unknown! Def package x is empty! No definitions available!''", symmetric]
  by (simp add: checkTridError_def HasPrefix_def)

subsection \<open>Scan\<close>

text \<open>
  C3. \<open>Scan\<close> checks its inputs in this order: an empty path gives
  \<open>ErrNoFileSpecified\<close>; a path that does not exist gives \<open>ErrFileNotFound\<close>, and any
  other failure of \<^verbatim>\<open>os.Stat\<close> is returned as it is; a match count below 1 gives
  \<open>ErrNumberOfMatches\<close>. The first check that fails decides, and no child process has
  been started when it is returned.
\<close>

theorem Scan_validation_order:
  "(filePath = [] \<longrightarrow> Scan w t filePath n = ([], (None, Some ErrNoFileSpecified))) \<and>
   (filePath \<noteq> [] \<and> Stat w filePath = Some err \<and> IsNotExist w err \<longrightarrow>
      Scan w t filePath n = ([], (None, Some ErrFileNotFound))) \<and>
   (filePath \<noteq> [] \<and> Stat w filePath = Some err \<and> \<not> IsNotExist w err \<longrightarrow>
      Scan w t filePath n = ([], (None, Some err))) \<and>
   (filePath \<noteq> [] \<and> Stat w filePath = None \<and> n < 1 \<longrightarrow>
      Scan w t filePath n = ([], (None, Some ErrNumberOfMatches)))"
  by (simp add: Scan_def)

theorem Scan_validation_order_witness:
  "Scan demo_world demo_trid [] 0 = ([], (None, Some ErrNoFileSpecified)) \<and>
   Scan demo_world demo_trid ''missing.bin'' 0 = ([], (None, Some ErrFileNotFound)) \<and>
   Scan demo_world demo_trid ''locked.bin'' 0 = ([], (None, Some (Underlying ''EACCES''))) \<and>
   Scan demo_world demo_trid ''sample.pdf'' 0 = ([], (None, Some ErrNumberOfMatches))"
  using Scan_validation_order [of "[]" demo_world demo_trid 0 "Underlying ''ENOENT''"]
    Scan_validation_order [of "''missing.bin''" demo_world demo_trid 0 "Underlying ''ENOENT''"]
    Scan_validation_order [of "''locked.bin''" demo_world demo_trid 0 "Underlying ''EACCES''"]
    Scan_validation_order [of "''sample.pdf''" demo_world demo_trid 0 "Underlying ''EACCES''"]
  by (simp add: demo_world_def)

lemma parseOutput_shape: "\<exists>rs. parseOutput uni out = (Some rs, None)"
  by (simp add: parseOutput_def Let_def)

text \<open>
  C4. \<open>Scan\<close> returns either a sequence of records and no error, or one error and no
  records, never both. When the classifier finds a signature in the captured text, its
  error is what \<open>Scan\<close> returns, with no sequence of records.
\<close>

theorem Scan_records_or_error:
  "((\<exists>rs. snd (Scan w t filePath n) = (Some rs, None)) \<or> (\<exists>e. snd (Scan w t filePath n) = (None, Some e))) \<and>
   (filePath \<noteq> [] \<and> Stat w filePath = None \<and> 1 \<le> n \<and>
    checkTridError (fst (execCmd w (Cmd (options t)) (Timeout (options t)) (Scan_args t filePath n))) = Some e
      \<longrightarrow> snd (Scan w t filePath n) = (None, Some e))"
  using parseOutput_shape [of "UnicodeLower w"]
  by (auto simp: Scan_def Let_def split: option.splits prod.splits)

theorem Scan_records_or_error_witness:
  "snd (Scan demo_world demo_trid ''sample.bin'' 1) = (None, Some ErrUnknownFileType)"
  using Scan_records_or_error [of demo_world demo_trid "''sample.bin''" 1 ErrUnknownFileType]
  by (simp add: demo_world_def execCmd_def checkTridError_def HasPrefix_def)





subsection \<open>The report parser\<close>

lemma parseBlock_None_iff:
  "parseBlock uni b = None \<longleftrightarrow>
     (search reFileInfo b = None \<or>
      (\<exists>st e c. search reFileInfo b = Some (st, e, c) \<and>
         (TrimSpace (Replace_percent (c 1)) = [] \<or>
          (\<exists>err. ParseFloat (TrimSpace (Replace_percent (c 1))) = Inl err))))"
  by (auto simp: parseBlock_def FindStringSubmatch_reFileInfo Let_def split: option.splits sum.splits)

text \<open>
  C5. \<open>parseOutput\<close> never returns an error. Its records are those of the blocks that the
  loop body accepts, in order; a block is skipped exactly when the header pattern matches
  nowhere in it, or its probability field is empty after stripping, or \<open>ParseFloat\<close>
  rejects the field; when every block is skipped the result is the empty sequence, not an
  error.
\<close>

theorem parseOutput_tolerant:
  "snd (parseOutput uni out) = None \<and>
   fst (parseOutput uni out) = Some (List.map_filter (parseBlock uni) (Split_blank [] (ReplaceAll_crlf out))) \<and>
   (parseBlock uni b = None \<longleftrightarrow>
      (search reFileInfo b = None \<or>
       (\<exists>st e c. search reFileInfo b = Some (st, e, c) \<and>
          (TrimSpace (Replace_percent (c 1)) = [] \<or>
           (\<exists>err. ParseFloat (TrimSpace (Replace_percent (c 1))) = Inl err))))) \<and>
   ((\<forall>b \<in> set (Split_blank [] (ReplaceAll_crlf out)). parseBlock uni b = None) \<longrightarrow>
      fst (parseOutput uni out) = Some [])"
proof -
  have "(\<forall>b \<in> set bs. parseBlock uni b = None) \<longrightarrow> List.map_filter (parseBlock uni) bs = []" for bs
    by (induction bs) (auto simp: List.map_filter_simps)
  then show ?thesis
    using parseBlock_None_iff [of uni b] by (simp add: parseOutput_blocks)
qed

theorem parseOutput_tolerant_witness:
  "parseBlock id ''TrID - File Identifier'' = None \<and> parseBlock id ''1.2.3% (.a) b'' = None \<and>
   parseOutput id (''TrID - File Identifier'' @ [NL, NL] @ ''1.2.3% (.a) b'') = (Some [], None)"
  using parseOutput_tolerant [of id "''TrID - File Identifier'' @ [NL, NL] @ ''1.2.3% (.a) b''" "''1.2.3% (.a) b''"]
  by (simp add: eval_all)

text \<open>
  C6. The report with the block \<^verbatim>\<open>85.50% (.pdf) Adobe Portable Document Format\<close> and its
  detail line \<^verbatim>\<open>Mime type: application/pdf\<close>, a blank line, and the block
  \<^verbatim>\<open>10.00% (.ps) PostScript\<close> parses to exactly two records in that order: extension
  \<^verbatim>\<open>.pdf\<close>, probability 85.5, that name and MIME type; then extension \<^verbatim>\<open>.ps\<close>,
  probability 10 and name \<^verbatim>\<open>PostScript\<close>.
\<close>

theorem parseOutput_sample_report:
  "parseOutput uni sample_report =
     (Some [\<lparr>Extension = ''.pdf'', Probability = 171 / 2, Name = ''Adobe Portable Document Format'',
             MimeType = ''application/pdf'', RelatedURL = [], Remarks = [], Definition = []\<rparr>,
            \<lparr>Extension = ''.ps'', Probability = 10, Name = ''PostScript'',
             MimeType = [], RelatedURL = [], Remarks = [], Definition = []\<rparr>], None)"
  by (simp add: sample_report_def eval_all)

theorem parseOutput_sample_report_witness:
  "map Extension (the (fst (parseOutput (map ascii_lower) sample_report))) = [''.pdf'', ''.ps''] \<and>
   map Probability (the (fst (parseOutput (map ascii_lower) sample_report))) = [171 / 2, 10]"
  using parseOutput_sample_report [of "map ascii_lower"] by simp

text \<open>
  C9 (amended). Every record returned by \<open>parseOutput\<close> has an extension that starts with
  a dot and is equal to its own lowercasing. The header pattern is searched in the whole
  block, not at its first parenthesized token: it matches exactly in the blocks that have a
  header place (digits and dots, a percent sign, white space, a parenthesized token that
  starts with a dot and is closed on the same line, white space), so a block in which no
  percent sign is followed by white space and a token with a leading dot gives no record.
  For an extension with a byte beyond ASCII the lowercasing is that of Go's Unicode
  tables, of which two facts are assumed: they keep a leading dot, and lowering their
  result again changes nothing.
\<close>

theorem extension_dot_lower:
  assumes "fst (parseOutput uni out) = Some rs" "r \<in> set rs"
    and "\<forall>s. \<not> isASCII s \<longrightarrow> ToLower uni (uni s) = uni s"
    and "\<forall>s. \<not> isASCII (CHR ''.'' # s) \<longrightarrow> (\<exists>t. uni (CHR ''.'' # s) = CHR ''.'' # t)"
  shows "(\<exists>t. Extension r = CHR ''.'' # t) \<and> ToLower uni (Extension r) = Extension r \<and>
         (search reFileInfo b \<noteq> None \<longleftrightarrow> header_place b) \<and>
         (\<not> percent_token b \<longrightarrow> parseBlock uni b = None)"
proof -
  obtain blk where "parseBlock uni blk = Some r"
    using assms(1,2) parseOutput_record by blast
  then obtain st e c where s: "search reFileInfo blk = Some (st, e, c)" and ext: "Extension r = ToLower uni (c 2)"
    using parseBlock_Some by blast
  have "match_here reFileInfo st = Some (e, c)"
    using search_Some [OF s] by blast
  then obtain u where u: "c 2 = CHR ''.'' # u"
    using match_here_shape by blast
  have dot: "ascii_lower CHR ''.'' = CHR ''.''"
    by (simp add: ascii_lower_def)
  have "(\<exists>t. Extension r = CHR ''.'' # t) \<and> ToLower uni (Extension r) = Extension r"
  proof (cases "isASCII (c 2)")
    case True
    then have "Extension r = CHR ''.'' # map ascii_lower u"
      using ext u dot by (simp add: ToLower_def)
    moreover have "ToLower uni (Extension r) = Extension r"
      using ext True ToLower_ascii_idem by simp
    ultimately show ?thesis by blast
  next
    case False
    then have e: "Extension r = uni (c 2)"
      using ext by (simp add: ToLower_def)
    then show ?thesis
      using assms(3,4) False u by auto
  qed
  moreover have "\<not> percent_token b \<longrightarrow> parseBlock uni b = None"
    using header_place_percent_token header_place_iff parseBlock_None_iff by blast
  ultimately show ?thesis
    using header_place_iff by blast
qed

theorem extension_dot_lower_witness:
  "Extension (hd (the (fst (parseOutput (map ascii_lower) ''50% (.PDF) x'')))) = ''.pdf'' \<and>
   parseBlock (map ascii_lower) ''50% (EXE) Generic CIL Executable (.NET, Mono, etc.)'' = None"
proof -
  have p: "parseOutput (map ascii_lower) ''50% (.PDF) x'' =
      (Some [\<lparr>Extension = ''.pdf'', Probability = 50, Name = ''x'', MimeType = [], RelatedURL = [],
              Remarks = [], Definition = []\<rparr>], None)"
    by (simp add: eval_all)
  have h1: "\<forall>s. \<not> isASCII s \<longrightarrow> ToLower (map ascii_lower) (map ascii_lower s) = map ascii_lower s"
    by (simp add: ToLower_def ascii_lower_idem)
  have h2: "\<forall>s. \<not> isASCII (CHR ''.'' # s) \<longrightarrow> (\<exists>t. map ascii_lower (CHR ''.'' # s) = CHR ''.'' # t)"
    by (simp add: ascii_lower_def)
  have "\<not> percent_token ''50% (EXE) Generic CIL Executable (.NET, Mono, etc.)''"
    by (simp add: perl_space_def)
  moreover have "fst (parseOutput (map ascii_lower) ''50% (.PDF) x'') =
      Some [\<lparr>Extension = ''.pdf'', Probability = 50, Name = ''x'', MimeType = [], RelatedURL = [],
              Remarks = [], Definition = []\<rparr>]"
    using p by simp
  ultimately show ?thesis
    using extension_dot_lower [of "map ascii_lower" "''50% (.PDF) x''" _ _
        "''50% (EXE) Generic CIL Executable (.NET, Mono, etc.)''", OF _ _ h1 h2]
    by simp
qed

text \<open>
  The claim as it was stated fails on a block whose first parenthesized token has no dot
  while a later place has the header shape: the block gives a record.
\<close>

theorem dotless_token_counterexample:
  "parseOutput (map ascii_lower) ''50% (EXE) 60% (.NET) y'' =
     (Some [\<lparr>Extension = ''.net'', Probability = 60, Name = ''y'', MimeType = [], RelatedURL = [],
             Remarks = [], Definition = []\<rparr>], None)"
  by (simp add: eval_all)

end
